theory Spec2Isabelle
  imports Main "HOL-Library.Word"
begin

unbundle bit_operations_syntax

text \<open>
  A model of the monome library for Deno: the OSC codec (\<open>OscEncoder\<close>, \<open>OscDecoder\<close>),
  the subscriptions of \<open>OscReceiver\<close>, the handshake of \<open>Device.start\<close> with the
  listeners of \<open>Grid\<close> and \<open>Arc\<close>, and the callbacks of the \<open>SerialOSC\<close> discovery
  client. Buffers are lists of bytes, objects are records passed along and returned
  updated, an exception is the left summand of a result, and what an object emits or sends
  is recorded in a list. The definitions come first; the properties follow, the ones the
  specification states at the end.
\<close>

section \<open>JavaScript values, bytes and text\<close>

text \<open>
  A \<open>Uint8Array\<close> is a list of bytes. A JavaScript string is modelled by the list of its
  UTF-8 bytes, one \<open>char\<close> per byte, so that \<open>TextEncoder.encode\<close> is the bytewise
  conversion below and \<open>length\<close> counts bytes; for ASCII text, which is what OSC addresses
  and type tags are, bytes and characters coincide. The strings of the model are the
  well-formed ones: a string with an unpaired surrogate has no UTF-8 form
  (\<open>TextEncoder\<close> writes U+FFFD in its place), and is not a value of the model.
\<close>

type_synonym byte = "8 word"

text \<open>
  A JavaScript number, as far as the codec can tell numbers apart:
  \<^item> \<open>Whole i\<close>: a number for which \<open>Number.isInteger\<close> holds, with value \<open>i\<close>
    (\<open>-0\<close> is identified with \<open>0\<close>);
  \<^item> \<open>NonInteger w\<close>: a number for which \<open>Number.isInteger\<close> fails and that is not
    \<open>NaN\<close>, given by its IEEE-754 binary32 pattern \<open>w\<close> (a fractional value, a subnormal
    or an infinity); doubles that are not binary32 values are outside the model;
  \<^item> \<open>NaN\<close>.
\<close>

datatype jsnumber = Whole int | NonInteger "32 word" | NaN

text \<open>
  The values the code handles through \<open>any\<close>: numbers, strings, and \<open>Undefined\<close> for
  \<open>undefined\<close> (a missing handler argument); in \<open>encode\<close> every value that is neither
  a number nor a string takes the branch of \<open>Undefined\<close>.
\<close>

datatype jsvalue = Num jsnumber | Str string | Undefined

text \<open>
  The exceptions: \<open>RangeError\<close>, which the typed arrays and the \<open>DataView\<close> raise on an
  access out of range, and \<open>TypeError\<close>, which the event emitter raises on a registration
  beyond its listener limit.
\<close>

datatype error = RangeError | TypeError

definition textEncode :: "string \<Rightarrow> byte list" where
  "textEncode str = map of_char str"

text \<open>
  \<open>new TextDecoder().decode(bytes)\<close>: with the default \<open>ignoreBOM = false\<close> a leading
  byte order mark is dropped. Bytes that are not well-formed UTF-8 are kept as they are,
  where the decoder would substitute U+FFFD.
\<close>

definition utf8BOM :: "byte list" where
  "utf8BOM = [0xEF, 0xBB, 0xBF]"

definition textDecode :: "byte list \<Rightarrow> string" where
  "textDecode bytes =
     map (\<lambda>b. char_of (unat b)) (if take 3 bytes = utf8BOM then drop 3 bytes else bytes)"

text \<open>Whether a string starts with U+FEFF, the byte order mark.\<close>

definition startsWithBOM :: "string \<Rightarrow> bool" where
  "startsWithBOM str \<longleftrightarrow> take 3 (textEncode str) = utf8BOM"

text \<open>\<open>Math.ceil(k / 4)\<close> for a natural number \<open>k\<close>.\<close>

definition ceil4 :: "nat \<Rightarrow> nat" where
  "ceil4 k = (k + 3) div 4"

text \<open>The four bytes of a 32-bit pattern, big-endian, and the pattern of four bytes.\<close>

definition be32 :: "32 word \<Rightarrow> byte list" where
  "be32 w = [ucast (drop_bit 24 w), ucast (drop_bit 16 w), ucast (drop_bit 8 w), ucast w]"

definition of_be32 :: "byte \<Rightarrow> byte \<Rightarrow> byte \<Rightarrow> byte \<Rightarrow> 32 word" where
  "of_be32 a b c d =
     push_bit 24 (ucast a) OR push_bit 16 (ucast b) OR push_bit 8 (ucast c) OR ucast d"

text \<open>
  The number a binary32 pattern denotes, as \<open>DataView.getFloat32\<close> returns it: with sign
  bit \<open>s\<close>, exponent field \<open>e\<close> and fraction field \<open>m\<close>, a normal pattern is
  \<open>(-1)^s * (2^23 + m) * 2^(e - 150)\<close>, which is whole when \<open>150 \<le> e\<close> or when
  \<open>2^(150 - e)\<close> divides \<open>2^23 + m\<close>.
\<close>

definition float32_number :: "32 word \<Rightarrow> jsnumber" where
  "float32_number w =
     (let e = uint (drop_bit 23 w AND 0xFF);
          m = uint (w AND 0x7FFFFF);
          sgn = (if bit w 31 then - 1 else 1 :: int)
      in if e = 255 then (if m = 0 then NonInteger w else NaN)
         else if e = 0 then (if m = 0 then Whole 0 else NonInteger w)
         else if 150 \<le> e then Whole (sgn * ((2 ^ 23 + m) * 2 ^ nat (e - 150)))
         else if (2 ^ 23 + m) mod 2 ^ nat (150 - e) = 0
              then Whole (sgn * ((2 ^ 23 + m) div 2 ^ nat (150 - e)))
         else NonInteger w)"

section \<open>OscEncoder\<close>

text \<open>\<open>OscEncoder.alignedStringSize\<close>.\<close>

definition alignedStringSize :: "string \<Rightarrow> nat" where
  "alignedStringSize str = (let bytes = textEncode str in ceil4 (length bytes + 1) * 4)"

text \<open>
  \<open>TypedArray.prototype.set(source, offset)\<close>: a \<open>RangeError\<close> when the source does
  not fit, otherwise the source bytes replace the target's at \<open>offset\<close>.
\<close>

definition typedArraySet :: "byte list \<Rightarrow> byte list \<Rightarrow> nat \<Rightarrow> error + byte list" where
  "typedArraySet buffer bytes offset =
     (if length buffer < offset + length bytes then Inl RangeError
      else Inr (take offset buffer @ bytes @ drop (offset + length bytes) buffer))"

text \<open>
  \<open>OscEncoder.writeString\<close>. The indexed store \<open>buffer[offset + bytes.length] = 0\<close>
  is ignored by a typed array when the index is out of range, as \<open>list_update\<close> is.
\<close>

definition writeString :: "byte list \<Rightarrow> nat \<Rightarrow> string \<Rightarrow> error + (byte list \<times> nat)" where
  "writeString buffer offset str =
     (let bytes = textEncode str
      in case typedArraySet buffer bytes offset of
           Inl e \<Rightarrow> Inl e
         | Inr buffer1 \<Rightarrow>
             (let buffer2 = buffer1[offset + length bytes := 0];
                  paddedSize = ceil4 (length bytes + 1) * 4
              in Inr (buffer2, offset + paddedSize)))"

text \<open>
  \<open>DataView.setInt32\<close> and \<open>DataView.setFloat32\<close> store a 32-bit pattern big-endian,
  with a \<open>RangeError\<close> when \<open>offset + 4\<close> exceeds the view.
\<close>

definition dataViewSet32 :: "byte list \<Rightarrow> nat \<Rightarrow> 32 word \<Rightarrow> error + byte list" where
  "dataViewSet32 buffer offset w =
     (if length buffer < offset + 4 then Inl RangeError
      else Inr (take offset buffer @ be32 w @ drop (offset + 4) buffer))"

text \<open>
  \<open>OscEncoder.writeInt32\<close>, called on whole numbers only: \<open>setInt32\<close> converts the value
  with \<open>ToInt32\<close>, that is modulo \<open>2^32\<close>.
\<close>

definition writeInt32 :: "byte list \<Rightarrow> nat \<Rightarrow> int \<Rightarrow> error + (byte list \<times> nat)" where
  "writeInt32 buffer offset v =
     (case dataViewSet32 buffer offset (word_of_int v) of
        Inl e \<Rightarrow> Inl e
      | Inr buffer1 \<Rightarrow> Inr (buffer1, offset + 4))"

text \<open>
  \<open>OscEncoder.writeFloat32\<close>, called on numbers that are not whole; the argument is the
  binary32 pattern of the value.
\<close>

definition writeFloat32 :: "byte list \<Rightarrow> nat \<Rightarrow> 32 word \<Rightarrow> error + (byte list \<times> nat)" where
  "writeFloat32 buffer offset w =
     (case dataViewSet32 buffer offset w of
        Inl e \<Rightarrow> Inl e
      | Inr buffer1 \<Rightarrow> Inr (buffer1, offset + 4))"

text \<open>The binary32 pattern \<open>setFloat32\<close> writes for \<open>NaN\<close>.\<close>

definition nan_pattern :: "32 word" where
  "nan_pattern = 0x7FC00000"

text \<open>
  The first loop of \<open>encode\<close>: the type tags and the size of the string arguments.
  \<open>Number.isInteger(arg)\<close> holds exactly for \<open>Whole\<close>.
\<close>

fun tagArgs :: "jsvalue list \<Rightarrow> nat \<Rightarrow> string \<Rightarrow> nat \<times> string" where
  "tagArgs [] sz typeTags = (sz, typeTags)"
| "tagArgs (Num (Whole i) # rest) sz typeTags = tagArgs rest sz (typeTags @ ''i'')"
| "tagArgs (Num n # rest) sz typeTags = tagArgs rest sz (typeTags @ ''f'')"
| "tagArgs (Str s # rest) sz typeTags =
     tagArgs rest (sz + alignedStringSize s) (typeTags @ ''s'')"
| "tagArgs (Undefined # rest) sz typeTags = tagArgs rest sz typeTags"

text \<open>The second loop: four bytes for every numeric argument.\<close>

fun numericSize :: "jsvalue list \<Rightarrow> nat \<Rightarrow> nat" where
  "numericSize [] sz = sz"
| "numericSize (Num n # rest) sz = numericSize rest (sz + 4)"
| "numericSize (v # rest) sz = numericSize rest sz"

text \<open>The third loop: the arguments are written in order.\<close>

fun writeArgs :: "jsvalue list \<Rightarrow> byte list \<Rightarrow> nat \<Rightarrow> error + (byte list \<times> nat)" where
  "writeArgs [] buffer offset = Inr (buffer, offset)"
| "writeArgs (Num (Whole i) # rest) buffer offset =
     (case writeInt32 buffer offset i of
        Inl e \<Rightarrow> Inl e
      | Inr (buffer1, offset1) \<Rightarrow> writeArgs rest buffer1 offset1)"
| "writeArgs (Num (NonInteger w) # rest) buffer offset =
     (case writeFloat32 buffer offset w of
        Inl e \<Rightarrow> Inl e
      | Inr (buffer1, offset1) \<Rightarrow> writeArgs rest buffer1 offset1)"
| "writeArgs (Num NaN # rest) buffer offset =
     (case writeFloat32 buffer offset nan_pattern of
        Inl e \<Rightarrow> Inl e
      | Inr (buffer1, offset1) \<Rightarrow> writeArgs rest buffer1 offset1)"
| "writeArgs (Str s # rest) buffer offset =
     (case writeString buffer offset s of
        Inl e \<Rightarrow> Inl e
      | Inr (buffer1, offset1) \<Rightarrow> writeArgs rest buffer1 offset1)"
| "writeArgs (Undefined # rest) buffer offset = writeArgs rest buffer offset"

text \<open>\<open>OscEncoder.encode\<close>; \<open>new Uint8Array(size)\<close> is filled with zeros.\<close>

definition encode :: "string \<Rightarrow> jsvalue list \<Rightarrow> error + byte list" where
  "encode address args =
     (let (size1, typeTags) = tagArgs args (alignedStringSize address) '','';
          size2 = size1 + alignedStringSize typeTags;
          sz = numericSize args size2;
          buffer = replicate sz 0
      in case writeString buffer 0 address of
           Inl e \<Rightarrow> Inl e
         | Inr (buffer1, offset1) \<Rightarrow>
             (case writeString buffer1 offset1 typeTags of
                Inl e \<Rightarrow> Inl e
              | Inr (buffer2, offset2) \<Rightarrow>
                  (case writeArgs args buffer2 offset2 of
                     Inl e \<Rightarrow> Inl e
                   | Inr (buffer3, offset3) \<Rightarrow> Inr buffer3)))"

section \<open>OscDecoder\<close>

record osc_message =
  address :: string
  args :: "jsvalue list"

text \<open>
  The scan of \<open>readString\<close>:
  \<^verbatim>\<open>while (end < data.length && data[end] !== 0) end++\<close>.
\<close>

function scanNul :: "byte list \<Rightarrow> nat \<Rightarrow> nat" where
  "scanNul data endpos =
     (if endpos < length data \<and> data ! endpos \<noteq> 0 then scanNul data (endpos + 1) else endpos)"
  by pat_completeness auto
termination
  by (relation "measure (\<lambda>(data, endpos). length data - endpos)") auto

declare scanNul.simps [simp del]

text \<open>\<open>data.subarray(begin, end)\<close> for \<open>begin \<le> end\<close>; both ends are clamped to the array.\<close>

definition subarray :: "byte list \<Rightarrow> nat \<Rightarrow> nat \<Rightarrow> byte list" where
  "subarray data begin endpos = take (endpos - begin) (drop begin data)"

text \<open>\<open>OscDecoder.readString\<close>.\<close>

definition readString :: "byte list \<Rightarrow> nat \<Rightarrow> string \<times> nat" where
  "readString data offset =
     (let endpos = scanNul data offset;
          bytes = subarray data offset endpos;
          v = textDecode bytes;
          paddedSize = ceil4 (endpos - offset + 1) * 4
      in (v, offset + paddedSize))"

text \<open>
  \<open>DataView.getInt32\<close> and \<open>DataView.getFloat32\<close> raise a \<open>RangeError\<close> when
  \<open>offset + 4\<close> exceeds the view, which here is the whole of \<open>data\<close>.
\<close>

definition dataViewGet32 :: "byte list \<Rightarrow> nat \<Rightarrow> error + 32 word" where
  "dataViewGet32 data offset =
     (if length data < offset + 4 then Inl RangeError
      else Inr (of_be32 (data ! offset) (data ! (offset + 1))
                        (data ! (offset + 2)) (data ! (offset + 3))))"

text \<open>\<open>OscDecoder.readInt32\<close> and \<open>OscDecoder.readFloat32\<close>.\<close>

definition readInt32 :: "byte list \<Rightarrow> nat \<Rightarrow> error + (jsnumber \<times> nat)" where
  "readInt32 data offset =
     (case dataViewGet32 data offset of
        Inl e \<Rightarrow> Inl e
      | Inr w \<Rightarrow> Inr (Whole (sint w), offset + 4))"

definition readFloat32 :: "byte list \<Rightarrow> nat \<Rightarrow> error + (jsnumber \<times> nat)" where
  "readFloat32 data offset =
     (case dataViewGet32 data offset of
        Inl e \<Rightarrow> Inl e
      | Inr w \<Rightarrow> Inr (float32_number w, offset + 4))"

text \<open>
  The loop of \<open>decode\<close> over the type tags after the comma; a tag other than \<open>i\<close>,
  \<open>f\<close>, \<open>s\<close> is skipped.
\<close>

fun readArgs :: "byte list \<Rightarrow> string \<Rightarrow> nat \<Rightarrow> jsvalue list \<Rightarrow> error + jsvalue list" where
  "readArgs data [] offset acc = Inr acc"
| "readArgs data (tag # tags) offset acc =
     (if tag = CHR ''i'' then
        (case readInt32 data offset of
           Inl e \<Rightarrow> Inl e
         | Inr (v, newOffsetInt) \<Rightarrow> readArgs data tags newOffsetInt (acc @ [Num v]))
      else if tag = CHR ''f'' then
        (case readFloat32 data offset of
           Inl e \<Rightarrow> Inl e
         | Inr (v, newOffsetFloat) \<Rightarrow> readArgs data tags newOffsetFloat (acc @ [Num v]))
      else if tag = CHR ''s'' then
        (case readString data offset of
           (v, newOffsetStr) \<Rightarrow> readArgs data tags newOffsetStr (acc @ [Str v]))
      else readArgs data tags offset acc)"

text \<open>\<open>OscDecoder.decode\<close>; 44 is the comma.\<close>

definition decode :: "byte list \<Rightarrow> error + osc_message" where
  "decode data =
     (case readString data 0 of
        (addr, newOffset) \<Rightarrow>
          if length data \<le> newOffset \<or> data ! newOffset \<noteq> 44
          then Inr \<lparr>address = addr, args = []\<rparr>
          else (case readString data newOffset of
                  (typeTags, afterTypeTags) \<Rightarrow>
                    (case readArgs data (drop 1 typeTags) afterTypeTags [] of
                       Inl e \<Rightarrow> Inl e
                     | Inr vs \<Rightarrow> Inr \<lparr>address = addr, args = vs\<rparr>)))"

text \<open>
  The wire layout of a message: a string is its bytes followed by one to four zero bytes,
  up to the next multiple of four; the type-tag string and the payload of every argument
  follow the address.
\<close>

definition oscString :: "string \<Rightarrow> byte list" where
  "oscString str =
     textEncode str @ replicate (alignedStringSize str - length (textEncode str)) 0"

fun tagOf :: "jsvalue \<Rightarrow> string" where
  "tagOf (Num (Whole i)) = ''i''"
| "tagOf (Num n) = ''f''"
| "tagOf (Str s) = ''s''"
| "tagOf Undefined = []"

fun argBytes :: "jsvalue \<Rightarrow> byte list" where
  "argBytes (Num (Whole i)) = be32 (word_of_int i)"
| "argBytes (Num (NonInteger w)) = be32 w"
| "argBytes (Num NaN) = be32 nan_pattern"
| "argBytes (Str s) = oscString s"
| "argBytes Undefined = []"

definition typeTagsOf :: "jsvalue list \<Rightarrow> string" where
  "typeTagsOf vs = '','' @ concat (map tagOf vs)"

definition wireLayout :: "string \<Rightarrow> jsvalue list \<Rightarrow> byte list" where
  "wireLayout addr vs = oscString addr @ oscString (typeTagsOf vs) @ concat (map argBytes vs)"

text \<open>
  The arguments that survive a round trip: a whole number in the range of \<open>Int32\<close>, a
  number that is not whole given by the binary32 pattern that denotes it, \<open>NaN\<close>, and a
  string without a NUL character that does not start with a byte order mark.
\<close>

fun supported :: "jsvalue \<Rightarrow> bool" where
  "supported (Num (Whole i)) = (- (2 ^ 31) \<le> i \<and> i < 2 ^ 31)"
| "supported (Num (NonInteger w)) = (float32_number w = NonInteger w)"
| "supported (Num NaN) = True"
| "supported (Str s) = (CHR 0x00 \<notin> set s \<and> \<not> startsWithBOM s)"
| "supported Undefined = False"

text \<open>
  The bytes of a buffer before its first zero byte, and the size they take once terminated
  and padded: where \<open>decode\<close> looks for the comma.
\<close>

definition addressBytes :: "byte list \<Rightarrow> byte list" where
  "addressBytes data = takeWhile (\<lambda>b. b \<noteq> 0) data"

definition paddedAddressSize :: "byte list \<Rightarrow> nat" where
  "paddedAddressSize data = ceil4 (length (addressBytes data) + 1) * 4"

text \<open>
  Whether the four bytes of some \<open>i\<close> or \<open>f\<close> argument extend past the end of the
  buffer, the arguments laid out from \<open>offset\<close> as \<open>decode\<close> walks them.
\<close>

fun numericTruncated :: "byte list \<Rightarrow> string \<Rightarrow> nat \<Rightarrow> bool" where
  "numericTruncated data [] offset = False"
| "numericTruncated data (tag # tags) offset =
     (if tag = CHR ''i'' \<or> tag = CHR ''f''
      then length data < offset + 4 \<or> numericTruncated data tags (offset + 4)
      else if tag = CHR ''s'' then numericTruncated data tags (snd (readString data offset))
      else numericTruncated data tags offset)"

definition truncatedNumeric :: "byte list \<Rightarrow> bool" where
  "truncatedNumeric data =
     (case readString data 0 of
        (addr, newOffset) \<Rightarrow>
          newOffset < length data \<and> data ! newOffset = 44 \<and>
          (case readString data newOffset of
             (typeTags, afterTypeTags) \<Rightarrow>
               numericTruncated data (drop 1 typeTags) afterTypeTags))"

section \<open>OscReceiver\<close>

text \<open>
  The receiver's state: whether it holds a socket, the \<open>isListening\<close> flag, and the
  subscriptions of the \<open>EventEmitter\<close> it extends, as the list of (address, handler)
  pairs in registration order.
\<close>

record 'h osc_receiver =
  socket :: bool
  isListening :: bool
  listeners :: "(string \<times> 'h) list"

definition newOscReceiver :: "'h osc_receiver" where
  "newOscReceiver = \<lparr>socket = False, isListening = False, listeners = []\<rparr>"

text \<open>\<open>OscReceiver.listen\<close>, the socket being bound without failure.\<close>

definition listen :: "'h osc_receiver \<Rightarrow> 'h osc_receiver" where
  "listen r = (if isListening r then r else r\<lparr>socket := True, isListening := True\<rparr>)"

text \<open>
  \<open>on\<close> and \<open>emit\<close> are inherited from the \<open>EventEmitter\<close> of the imported package,
  which \<open>OscReceiver\<close> extends through \<open>super()\<close>, that is with the package's default
  limit of ten listeners per event. \<open>on(address, handler)\<close> raises a \<open>TypeError\<close> when
  the address already has as many listeners as the limit allows, and appends the handler to
  the listeners of the address otherwise; \<open>emit(address, ...)\<close> calls the listeners
  registered for exactly that address, in registration order. Below, \<open>on\<close> is the
  registration itself and \<open>onWithLimit\<close> is the method with its check.
\<close>

definition on :: "'h osc_receiver \<Rightarrow> string \<Rightarrow> 'h \<Rightarrow> 'h osc_receiver" where
  "on r addr h = r\<lparr>listeners := listeners r @ [(addr, h)]\<rparr>"

definition listenersFor :: "'h osc_receiver \<Rightarrow> string \<Rightarrow> 'h list" where
  "listenersFor r addr = map snd (filter (\<lambda>l. fst l = addr) (listeners r))"

definition listenerLimit :: nat where
  "listenerLimit = 10"

definition onWithLimit :: "'h osc_receiver \<Rightarrow> string \<Rightarrow> 'h \<Rightarrow> error + 'h osc_receiver" where
  "onWithLimit r addr h =
     (if listenerLimit \<le> length (listenersFor r addr) then Inl TypeError
      else Inr (on r addr h))"

text \<open>
  \<open>OscReceiver.removeListener\<close> and \<open>OscReceiver.removeAllListeners\<close>: the body of each
  is a single \<open>console.log\<close>, so the receiver is returned as it is.
\<close>

definition removeListener :: "'h osc_receiver \<Rightarrow> string \<Rightarrow> 'h osc_receiver" where
  "removeListener r addr = r"

definition removeAllListeners :: "'h osc_receiver \<Rightarrow> string option \<Rightarrow> 'h osc_receiver" where
  "removeAllListeners r addr = r"

text \<open>\<open>OscReceiver.close\<close>.\<close>

definition close :: "'h osc_receiver \<Rightarrow> 'h osc_receiver" where
  "close r =
     (let r1 = r\<lparr>isListening := False\<rparr>;
          r2 = (if socket r1 then r1\<lparr>socket := False\<rparr> else r1)
      in removeAllListeners r2 None)"

section \<open>Device, Grid and Arc\<close>

datatype device_kind = DeviceClass | GridClass | ArcClass

text \<open>
  The callbacks registered on a device's receiver: those of \<open>Device.start\<close>, those of
  \<open>Grid.addListeners\<close> and \<open>Arc.addListeners\<close>, and the logger of the debug mode.
\<close>

datatype handler =
    OnSysId | OnSysSize | OnSysRotation | OnSysConnect | OnSysDisconnect
  | OnSysPort | OnSysHost | OnSysPrefix
  | OnGridKey | OnGridTilt | OnEncKey | OnEncDelta
  | OnDebugMessage

text \<open>
  A configured device: its receiver, the messages sent through \<open>oscSender\<close> in order, its
  properties, the variables \<open>initMsgs\<close> and \<open>sentSysInfo\<close> of \<open>start\<close> that its
  callbacks close over, and the events the device has emitted, each with its name and the
  fields of its payload. The properties hold whatever value a message brought.
\<close>

record device =
  kind :: device_kind
  oscReceiver :: "handler osc_receiver"
  sent :: "(string \<times> jsvalue list) list"
  deviceId :: jsvalue
  host :: jsvalue
  port :: jsvalue
  prefix :: jsvalue
  rotation :: jsvalue
  sizeX :: jsvalue
  sizeY :: jsvalue
  connected :: bool
  initMsgs :: "string list"
  sentSysInfo :: bool
  events :: "(string \<times> jsvalue list) list"

text \<open>
  The field initialisers of class \<open>Device\<close>, with the receiver and the sender that
  \<open>config\<close> creates; \<open>debug\<close> is \<open>serialosc.debug\<close>, under which \<open>config\<close> subscribes
  the logger.
\<close>

definition newDevice :: "device_kind \<Rightarrow> bool \<Rightarrow> jsvalue \<Rightarrow> jsvalue \<Rightarrow> device" where
  "newDevice k debug h p =
     \<lparr>kind = k,
      oscReceiver = (if debug then on newOscReceiver ''message'' OnDebugMessage
                     else newOscReceiver),
      sent = [], deviceId = Str [], host = h, port = p, prefix = Str ''/monome'',
      rotation = Num (Whole 0), sizeX = Num (Whole 0), sizeY = Num (Whole 0),
      connected = False, initMsgs = [], sentSysInfo = False, events = []\<rparr>"

text \<open>
  \<open>this.emit(name, payload)\<close>, recorded in \<open>events\<close>, and
  \<open>this.oscSender.send(address, args)\<close>, recorded in \<open>sent\<close>; a send is taken to
  succeed.
\<close>

definition emitEvent :: "device \<Rightarrow> string \<Rightarrow> jsvalue list \<Rightarrow> device" where
  "emitEvent d name payload = d\<lparr>events := events d @ [(name, payload)]\<rparr>"

definition send :: "device \<Rightarrow> string \<Rightarrow> jsvalue list \<Rightarrow> device" where
  "send d addr vs = d\<lparr>sent := sent d @ [(addr, vs)]\<rparr>"

text \<open>
  The closure \<open>receiveInitMsg\<close> of \<open>Device.start\<close>; \<open>indexOf\<close> and \<open>splice\<close> remove
  the first occurrence of the message. Its sends are awaited, which defers what follows
  them but not the statements before the first send.
\<close>

definition receiveInitMsg :: "device \<Rightarrow> string \<Rightarrow> device" where
  "receiveInitMsg d msg =
     (if connected d then d
      else
        let d1 = d\<lparr>initMsgs := remove1 msg (initMsgs d)\<rparr>;
            d2 = (if length (initMsgs d1) = 0
                  then emitEvent (d1\<lparr>connected := True\<rparr>) ''initialized'' []
                  else d1);
            d3 = (if ''/sys/port'' \<notin> set (initMsgs d2) \<and> ''/sys/host'' \<in> set (initMsgs d2)
                  then send d2 ''/sys/host'' [host d2]
                  else d2)
        in if \<not> sentSysInfo d3 \<and> ''/sys/port'' \<notin> set (initMsgs d3) \<and>
              ''/sys/host'' \<notin> set (initMsgs d3)
           then send (d3\<lparr>sentSysInfo := True\<rparr>) ''/sys/info'' []
           else d3)"

text \<open>
  The string a template literal makes of a value. How a number is printed
  (\<open>Number.prototype.toString\<close>) is left open as the parameter \<open>numberToString\<close>.
\<close>

fun templateString :: "(jsnumber \<Rightarrow> string) \<Rightarrow> jsvalue \<Rightarrow> string" where
  "templateString numberToString (Str s) = s"
| "templateString numberToString (Num n) = numberToString n"
| "templateString numberToString Undefined = ''undefined''"

text \<open>
  \<open>removeListeners\<close> and \<open>addListeners\<close>: empty in \<open>Device\<close>, overridden in \<open>Grid\<close>
  and in \<open>Arc\<close>.
\<close>

definition removeListeners :: "(jsnumber \<Rightarrow> string) \<Rightarrow> device \<Rightarrow> device" where
  "removeListeners numberToString d =
     (let p = templateString numberToString (prefix d)
      in case kind d of
           DeviceClass \<Rightarrow> d
         | GridClass \<Rightarrow>
             d\<lparr>oscReceiver :=
                 removeListener (removeListener (oscReceiver d) (p @ ''/grid/key''))
                   (p @ ''/tilt'')\<rparr>
         | ArcClass \<Rightarrow>
             d\<lparr>oscReceiver :=
                 removeListener (removeListener (oscReceiver d) (p @ ''/enc/key''))
                   (p @ ''/enc/delta'')\<rparr>)"

definition addListeners :: "(jsnumber \<Rightarrow> string) \<Rightarrow> device \<Rightarrow> device" where
  "addListeners numberToString d =
     (let p = templateString numberToString (prefix d)
      in case kind d of
           DeviceClass \<Rightarrow> d
         | GridClass \<Rightarrow>
             d\<lparr>oscReceiver :=
                 on (on (oscReceiver d) (p @ ''/grid/key'') OnGridKey) (p @ ''/tilt'') OnGridTilt\<rparr>
         | ArcClass \<Rightarrow>
             d\<lparr>oscReceiver :=
                 on (on (oscReceiver d) (p @ ''/enc/key'') OnEncKey)
                   (p @ ''/enc/delta'') OnEncDelta\<rparr>)"

text \<open>The \<open>i\<close>-th parameter of a callback: \<open>undefined\<close> when the message has fewer arguments.\<close>

definition param :: "jsvalue list \<Rightarrow> nat \<Rightarrow> jsvalue" where
  "param vs i = (if i < length vs then vs ! i else Undefined)"

text \<open>The bodies of the callbacks.\<close>

fun invoke :: "(jsnumber \<Rightarrow> string) \<Rightarrow> handler \<Rightarrow> jsvalue list \<Rightarrow> device \<Rightarrow> device" where
  "invoke ns OnSysId vs d = d\<lparr>deviceId := param vs 0\<rparr>"
| "invoke ns OnSysSize vs d =
     receiveInitMsg (d\<lparr>sizeX := param vs 0, sizeY := param vs 1\<rparr>) ''/sys/size''"
| "invoke ns OnSysRotation vs d = receiveInitMsg (d\<lparr>rotation := param vs 0\<rparr>) ''/sys/rotation''"
| "invoke ns OnSysConnect vs d = emitEvent (d\<lparr>connected := True\<rparr>) ''connected'' []"
| "invoke ns OnSysDisconnect vs d = emitEvent (d\<lparr>connected := False\<rparr>) ''disconnected'' []"
| "invoke ns OnSysPort vs d = receiveInitMsg (d\<lparr>port := param vs 0\<rparr>) ''/sys/port''"
| "invoke ns OnSysHost vs d = receiveInitMsg (d\<lparr>host := param vs 0\<rparr>) ''/sys/host''"
| "invoke ns OnSysPrefix vs d =
     receiveInitMsg (addListeners ns ((removeListeners ns d)\<lparr>prefix := param vs 0\<rparr>))
       ''/sys/prefix''"
| "invoke ns OnGridKey vs d = emitEvent d ''key'' [param vs 0, param vs 1, param vs 2]"
| "invoke ns OnGridTilt vs d =
     emitEvent d ''tilt'' [param vs 0, param vs 1, param vs 2, param vs 3]"
| "invoke ns OnEncKey vs d = emitEvent d ''key'' [param vs 0, param vs 1]"
| "invoke ns OnEncDelta vs d = emitEvent d ''delta'' [param vs 0, param vs 1]"
| "invoke ns OnDebugMessage vs d = d"

text \<open>
  \<open>this.emit(address, ...args)\<close> on the receiver of a device: the callbacks registered for
  the address when the call starts run in order.
\<close>

definition emitTo :: "(jsnumber \<Rightarrow> string) \<Rightarrow> device \<Rightarrow> string \<Rightarrow> jsvalue list \<Rightarrow> device" where
  "emitTo ns d addr vs =
     foldl (\<lambda>d' h. invoke ns h vs d') d (listenersFor (oscReceiver d) addr)"

text \<open>
  One decoded datagram in the loop of \<open>startReceiving\<close>: the message is emitted at its
  address, then as a \<open>message\<close> event.
\<close>

definition dispatch :: "(jsnumber \<Rightarrow> string) \<Rightarrow> device \<Rightarrow> string \<times> jsvalue list \<Rightarrow> device" where
  "dispatch ns d m = emitTo ns (emitTo ns d (fst m) (snd m)) ''message'' (Str (fst m) # snd m)"

definition run :: "(jsnumber \<Rightarrow> string) \<Rightarrow> device \<Rightarrow> (string \<times> jsvalue list) list \<Rightarrow> device" where
  "run ns d ms = foldl (dispatch ns) d ms"

text \<open>\<open>Device.start\<close>.\<close>

definition start :: "device \<Rightarrow> device" where
  "start d =
     (let r0 = listen (oscReceiver d);
          r1 = on r0 ''/sys/id'' OnSysId;
          r2 = on r1 ''/sys/size'' OnSysSize;
          r3 = on r2 ''/sys/rotation'' OnSysRotation;
          r4 = on r3 ''/sys/connect'' OnSysConnect;
          r5 = on r4 ''/sys/disconnect'' OnSysDisconnect;
          r6 = on r5 ''/sys/port'' OnSysPort;
          r7 = on r6 ''/sys/host'' OnSysHost;
          r8 = on r7 ''/sys/prefix'' OnSysPrefix
      in send (d\<lparr>oscReceiver := r8,
                  initMsgs := [''/sys/host'', ''/sys/port'', ''/sys/prefix'', ''/sys/rotation'',
                               ''/sys/size''],
                  sentSysInfo := False\<rparr>)
           ''/sys/port'' [port d])"

text \<open>\<open>Device.stop\<close>.\<close>

definition stop :: "device \<Rightarrow> device" where
  "stop d = d\<lparr>connected := False, oscReceiver := close (oscReceiver d)\<rparr>"

text \<open>The number of \<open>initialized\<close> events a device has emitted.\<close>

definition initializedCount :: "device \<Rightarrow> nat" where
  "initializedCount d = count_list (events d) (''initialized'', [])"

text \<open>The five acknowledgments \<open>start\<close> tracks.\<close>

definition trackedAcks :: "string list" where
  "trackedAcks = [''/sys/host'', ''/sys/port'', ''/sys/prefix'', ''/sys/rotation'', ''/sys/size'']"

text \<open>
  A device before \<open>start\<close>, as \<open>config\<close> leaves it: not connected, nothing emitted yet,
  and no subscription but the logger's.
\<close>

definition configured :: "device \<Rightarrow> bool" where
  "configured d \<longleftrightarrow>
     \<not> connected d \<and> events d = [] \<and>
     list_all (\<lambda>l. snd l = OnDebugMessage) (listeners (oscReceiver d))"

text \<open>
  The part of a device's state that the handshake reads and writes: \<open>initMsgs\<close>,
  \<open>connected\<close> and the number of \<open>initialized\<close> events; and what each callback of
  \<open>start\<close> does to it.
\<close>

definition startListeners :: "(string \<times> handler) list" where
  "startListeners =
     [(''/sys/id'', OnSysId), (''/sys/size'', OnSysSize), (''/sys/rotation'', OnSysRotation),
      (''/sys/connect'', OnSysConnect), (''/sys/disconnect'', OnSysDisconnect),
      (''/sys/port'', OnSysPort), (''/sys/host'', OnSysHost), (''/sys/prefix'', OnSysPrefix)]"

fun isSys :: "handler \<Rightarrow> bool" where
  "isSys OnGridKey = False"
| "isSys OnGridTilt = False"
| "isSys OnEncKey = False"
| "isSys OnEncDelta = False"
| "isSys OnDebugMessage = False"
| "isSys h = True"

definition sysListeners :: "device \<Rightarrow> (string \<times> handler) list" where
  "sysListeners d = filter (\<lambda>l. isSys (snd l)) (listeners (oscReceiver d))"

type_synonym core = "string list \<times> bool \<times> nat"

definition core :: "device \<Rightarrow> core" where
  "core d = (initMsgs d, connected d, initializedCount d)"

fun ackCore :: "string \<Rightarrow> core \<Rightarrow> core" where
  "ackCore msg (ms, c, n) =
     (if c then (ms, c, n)
      else if remove1 msg ms = [] then ([], True, Suc n)
      else (remove1 msg ms, False, n))"

fun handlerCore :: "handler \<Rightarrow> core \<Rightarrow> core" where
  "handlerCore OnSysSize c = ackCore ''/sys/size'' c"
| "handlerCore OnSysRotation c = ackCore ''/sys/rotation'' c"
| "handlerCore OnSysPort c = ackCore ''/sys/port'' c"
| "handlerCore OnSysHost c = ackCore ''/sys/host'' c"
| "handlerCore OnSysPrefix c = ackCore ''/sys/prefix'' c"
| "handlerCore OnSysConnect (ms, c, n) = (ms, True, n)"
| "handlerCore OnSysDisconnect (ms, c, n) = (ms, False, n)"
| "handlerCore h c = c"

definition addressCore :: "string \<Rightarrow> core \<Rightarrow> core" where
  "addressCore a c =
     foldl (\<lambda>c' h. handlerCore h c') c (map snd (filter (\<lambda>l. fst l = a) startListeners))"

subsection \<open>The listener limit in a session\<close>

text \<open>
  As \<open>removeListener\<close> removes nothing, every \<open>/sys/prefix\<close> message leaves two more
  listeners on the receiver of a \<open>Grid\<close> or of an \<open>Arc\<close>, and a registration of
  \<open>addListeners\<close> can reach the limit of the emitter. The definitions below are
  \<open>addListeners\<close>, the callbacks, \<open>emit\<close>, the loop of \<open>startReceiving\<close> and
  \<open>start\<close> with the check of \<open>on\<close> in place. Only the callback of \<open>/sys/prefix\<close>
  registers listeners; it calls \<open>addListeners\<close> before \<open>receiveInitMsg\<close>. No callback
  and no caller catches the exception of \<open>on\<close>: the result is \<open>Inl TypeError\<close> as soon
  as a registration raises it, and the state of the device otherwise.
\<close>

definition addListenersWithLimit :: "(jsnumber \<Rightarrow> string) \<Rightarrow> device \<Rightarrow> error + device" where
  "addListenersWithLimit numberToString d =
     (let p = templateString numberToString (prefix d)
      in case kind d of
           DeviceClass \<Rightarrow> Inr d
         | GridClass \<Rightarrow>
             (case onWithLimit (oscReceiver d) (p @ ''/grid/key'') OnGridKey of
                Inl e \<Rightarrow> Inl e
              | Inr r1 \<Rightarrow>
                  (case onWithLimit r1 (p @ ''/tilt'') OnGridTilt of
                     Inl e \<Rightarrow> Inl e
                   | Inr r2 \<Rightarrow> Inr (d\<lparr>oscReceiver := r2\<rparr>)))
         | ArcClass \<Rightarrow>
             (case onWithLimit (oscReceiver d) (p @ ''/enc/key'') OnEncKey of
                Inl e \<Rightarrow> Inl e
              | Inr r1 \<Rightarrow>
                  (case onWithLimit r1 (p @ ''/enc/delta'') OnEncDelta of
                     Inl e \<Rightarrow> Inl e
                   | Inr r2 \<Rightarrow> Inr (d\<lparr>oscReceiver := r2\<rparr>))))"

fun invokeWithLimit ::
  "(jsnumber \<Rightarrow> string) \<Rightarrow> handler \<Rightarrow> jsvalue list \<Rightarrow> device \<Rightarrow> error + device" where
  "invokeWithLimit ns OnSysPrefix vs d =
     (case addListenersWithLimit ns ((removeListeners ns d)\<lparr>prefix := param vs 0\<rparr>) of
        Inl e \<Rightarrow> Inl e
      | Inr d1 \<Rightarrow> Inr (receiveInitMsg d1 ''/sys/prefix''))"
| "invokeWithLimit ns h vs d = Inr (invoke ns h vs d)"

fun callListeners ::
  "(jsnumber \<Rightarrow> string) \<Rightarrow> handler list \<Rightarrow> jsvalue list \<Rightarrow> device \<Rightarrow> error + device" where
  "callListeners ns [] vs d = Inr d"
| "callListeners ns (h # hs) vs d =
     (case invokeWithLimit ns h vs d of
        Inl e \<Rightarrow> Inl e
      | Inr d1 \<Rightarrow> callListeners ns hs vs d1)"

definition emitToWithLimit ::
  "(jsnumber \<Rightarrow> string) \<Rightarrow> device \<Rightarrow> string \<Rightarrow> jsvalue list \<Rightarrow> error + device" where
  "emitToWithLimit ns d addr vs = callListeners ns (listenersFor (oscReceiver d) addr) vs d"

definition dispatchWithLimit ::
  "(jsnumber \<Rightarrow> string) \<Rightarrow> device \<Rightarrow> string \<times> jsvalue list \<Rightarrow> error + device" where
  "dispatchWithLimit ns d m =
     (case emitToWithLimit ns d (fst m) (snd m) of
        Inl e \<Rightarrow> Inl e
      | Inr d1 \<Rightarrow> emitToWithLimit ns d1 ''message'' (Str (fst m) # snd m))"

fun runWithLimit ::
  "(jsnumber \<Rightarrow> string) \<Rightarrow> device \<Rightarrow> (string \<times> jsvalue list) list \<Rightarrow> error + device" where
  "runWithLimit ns d [] = Inr d"
| "runWithLimit ns d (m # ms) =
     (case dispatchWithLimit ns d m of
        Inl e \<Rightarrow> Inl e
      | Inr d1 \<Rightarrow> runWithLimit ns d1 ms)"

text \<open>
  \<open>Device.start\<close> with the check of \<open>on\<close>: the eight registrations of \<open>startListeners\<close>,
  in that order, then the send.
\<close>

fun registerAll :: "'h osc_receiver \<Rightarrow> (string \<times> 'h) list \<Rightarrow> error + 'h osc_receiver" where
  "registerAll r [] = Inr r"
| "registerAll r (l # ls) =
     (case onWithLimit r (fst l) (snd l) of
        Inl e \<Rightarrow> Inl e
      | Inr r1 \<Rightarrow> registerAll r1 ls)"

definition startWithLimit :: "device \<Rightarrow> error + device" where
  "startWithLimit d =
     (case registerAll (listen (oscReceiver d)) startListeners of
        Inl e \<Rightarrow> Inl e
      | Inr r8 \<Rightarrow>
          Inr (send (d\<lparr>oscReceiver := r8,
                       initMsgs := [''/sys/host'', ''/sys/port'', ''/sys/prefix'', ''/sys/rotation'',
                                    ''/sys/size''],
                       sentSysInfo := False\<rparr>)
                 ''/sys/port'' [port d]))"

text \<open>
  The prefix a message brings to the callback of \<open>/sys/prefix\<close>, as the template literals
  of \<open>addListeners\<close> print it; the addresses at which \<open>addListeners\<close> registers for a
  prefix; the number of registrations at an address that a sequence of messages asks for;
  and the number of listeners a device has at an address.
\<close>

definition prefixOf :: "(jsnumber \<Rightarrow> string) \<Rightarrow> string \<times> jsvalue list \<Rightarrow> string" where
  "prefixOf ns m = templateString ns (param (snd m) 0)"

definition deviceAddresses :: "device_kind \<Rightarrow> string \<Rightarrow> string list" where
  "deviceAddresses k p =
     (case k of
        DeviceClass \<Rightarrow> []
      | GridClass \<Rightarrow> [p @ ''/grid/key'', p @ ''/tilt'']
      | ArcClass \<Rightarrow> [p @ ''/enc/key'', p @ ''/enc/delta''])"

fun registrations ::
  "(jsnumber \<Rightarrow> string) \<Rightarrow> device_kind \<Rightarrow> (string \<times> jsvalue list) list \<Rightarrow> string \<Rightarrow> nat" where
  "registrations ns k [] a = 0"
| "registrations ns k (m # ms) a =
     (if fst m = ''/sys/prefix'' then count_list (deviceAddresses k (prefixOf ns m)) a else 0) +
     registrations ns k ms a"

abbreviation listenerCount :: "device \<Rightarrow> string \<Rightarrow> nat" where
  "listenerCount d a \<equiv> length (listenersFor (oscReceiver d) a)"

section \<open>SerialOSC\<close>

datatype device_type = Grid | Arc

text \<open>
  \<open>DeviceInfo\<close>, its fields prefixed with \<open>info\<close>; \<open>devicePort\<close> is a UDP port
  number, an integer.
\<close>

record device_info =
  info_id :: string
  info_model :: string
  info_type :: device_type
  info_host :: string
  info_deviceHost :: string
  info_devicePort :: int
  info_encoders :: "int option"

text \<open>
  The client: \<open>devices\<close>, the listen host and port (\<open>this.host\<close>, \<open>this.port\<close>), the
  daemon's host, whether \<open>serialoscSender\<close> has been created, the events the client has
  emitted, each with its name and the descriptor it carries, and the messages sent to the
  daemon in order.
\<close>

record serialosc =
  devices :: "device_info list"
  listenHost :: string
  listenPort :: int
  serialoscHost :: string
  serialoscSender :: bool
  emitted :: "(string \<times> device_info) list"
  sentToDaemon :: "(string \<times> jsvalue list) list"

definition emitDevice :: "serialosc \<Rightarrow> string \<Rightarrow> device_info \<Rightarrow> serialosc" where
  "emitDevice st name info = st\<lparr>emitted := emitted st @ [(name, info)]\<rparr>"

text \<open>\<open>this.serialoscSender?.send(address, [listenHost, this.port])\<close>.\<close>

definition sendToDaemon :: "serialosc \<Rightarrow> string \<Rightarrow> serialosc" where
  "sendToDaemon st addr =
     (let host1 = (if listenHost st = ''localhost'' then ''127.0.0.1'' else listenHost st)
      in if serialoscSender st
         then st\<lparr>sentToDaemon :=
                   sentToDaemon st @ [(addr, [Str host1, Num (Whole (listenPort st))])]\<rparr>
         else st)"

text \<open>
  \<open>model.match(/monome arc ?(\d)?/)\<close>: \<open>None\<close> when the model does not contain
  \<open>monome arc\<close>, otherwise the capture of the group, the digit that follows the leftmost
  occurrence and an optional space, if there is one.
\<close>

fun afterMonomeArc :: "string \<Rightarrow> string option" where
  "afterMonomeArc [] = None"
| "afterMonomeArc (c # cs) =
     (if take 10 (c # cs) = ''monome arc'' then Some (drop 10 (c # cs))
      else afterMonomeArc cs)"

definition isDigit :: "char \<Rightarrow> bool" where
  "isDigit c \<longleftrightarrow> c \<in> set ''0123456789''"

definition encoderMatch :: "string \<Rightarrow> char option option" where
  "encoderMatch model =
     (case afterMonomeArc model of
        None \<Rightarrow> None
      | Some rest \<Rightarrow>
          (let rest1 = (case rest of c # cs \<Rightarrow> if c = CHR '' '' then cs else rest | [] \<Rightarrow> rest)
           in Some (case rest1 of c # cs \<Rightarrow> if isDigit c then Some c else None
                    | [] \<Rightarrow> None)))"

text \<open>\<open>parseInt\<close> of one decimal digit.\<close>

definition digitValue :: "char \<Rightarrow> int" where
  "digitValue c = of_char c - 48"

text \<open>The callback of \<open>/serialosc/device\<close>, at its parameters \<open>(id, model, port)\<close>.\<close>

definition onSerialoscDevice :: "serialosc \<Rightarrow> string \<Rightarrow> string \<Rightarrow> int \<Rightarrow> serialosc" where
  "onSerialoscDevice st ident model p =
     (let deviceOpts =
            \<lparr>info_id = ident, info_model = model, info_type = Grid,
             info_host = listenHost st, info_deviceHost = serialoscHost st,
             info_devicePort = p, info_encoders = None\<rparr>
      in case find (\<lambda>d. info_id d = info_id deviceOpts \<and>
                         info_devicePort d = info_devicePort deviceOpts) (devices st) of
           Some device \<Rightarrow> st
         | None \<Rightarrow>
             (let deviceOpts1 =
                    (case encoderMatch (info_model deviceOpts) of
                       Some (Some digit) \<Rightarrow>
                         deviceOpts\<lparr>info_type := Arc, info_encoders := Some (digitValue digit)\<rparr>
                     | Some None \<Rightarrow> deviceOpts\<lparr>info_type := Arc, info_encoders := Some 4\<rparr>
                     | None \<Rightarrow> deviceOpts\<lparr>info_type := Grid\<rparr>);
                  st1 = st\<lparr>devices := devices st @ [deviceOpts1]\<rparr>;
                  st2 = emitDevice st1 (info_id deviceOpts1 @ '':add'') deviceOpts1
              in emitDevice st2 ''device:add'' deviceOpts1))"

text \<open>The callback of \<open>/serialosc/add\<close>.\<close>

definition onSerialoscAdd :: "serialosc \<Rightarrow> serialosc" where
  "onSerialoscAdd st = sendToDaemon (sendToDaemon st ''/serialosc/list'') ''/serialosc/notify''"

text \<open>The callback of \<open>/serialosc/remove\<close>, at its parameters \<open>(id, _, devicePort)\<close>.\<close>

definition onSerialoscRemove :: "serialosc \<Rightarrow> string \<Rightarrow> string \<Rightarrow> int \<Rightarrow> serialosc" where
  "onSerialoscRemove st ident model devicePort =
     (let st1 =
            (case find (\<lambda>d. info_id d = ident \<and> info_devicePort d = devicePort) (devices st) of
               Some device \<Rightarrow>
                 emitDevice (emitDevice st (info_id device @ '':remove'') device)
                   ''device:remove'' device
             | None \<Rightarrow> st)
      in sendToDaemon st1 ''/serialosc/notify'')"

text \<open>
  A client after \<open>start\<close>, before any message of the daemon: no device yet, the sender
  created, \<open>notify\<close> and \<open>list\<close> sent.
\<close>

definition startedClient :: "string \<Rightarrow> int \<Rightarrow> string \<Rightarrow> serialosc" where
  "startedClient h p daemonHost =
     sendToDaemon
       (sendToDaemon
          \<lparr>devices = [], listenHost = h, listenPort = p, serialoscHost = daemonHost,
           serialoscSender = True, emitted = [], sentToDaemon = []\<rparr>
          ''/serialosc/notify'')
       ''/serialosc/list''"

text \<open>The identity key of a descriptor, and the announcements of a run of the daemon.\<close>

definition deviceKey :: "device_info \<Rightarrow> string \<times> int" where
  "deviceKey d = (info_id d, info_devicePort d)"

definition announce :: "serialosc \<Rightarrow> string \<times> string \<times> int \<Rightarrow> serialosc" where
  "announce st a = onSerialoscDevice st (fst a) (fst (snd a)) (snd (snd a))"

definition announceKey :: "string \<times> string \<times> int \<Rightarrow> string \<times> int" where
  "announceKey a = (fst a, snd (snd a))"

text \<open>The two events the callback of \<open>/serialosc/device\<close> emits for a new descriptor.\<close>

definition addEvents :: "device_info \<Rightarrow> (string \<times> device_info) list" where
  "addEvents d = [(info_id d @ '':add'', d), (''device:add'', d)]"

text \<open>The two events the callback of \<open>/serialosc/remove\<close> emits for a known descriptor.\<close>

definition removeEvents :: "device_info \<Rightarrow> (string \<times> device_info) list" where
  "removeEvents d = [(info_id d @ '':remove'', d), (''device:remove'', d)]"

definition notifyMessage :: "serialosc \<Rightarrow> string \<times> jsvalue list" where
  "notifyMessage st =
     (''/serialosc/notify'',
      [Str (if listenHost st = ''localhost'' then ''127.0.0.1'' else listenHost st),
       Num (Whole (listenPort st))])"

text \<open>What the announcements keep true of the client.\<close>

definition dedupInv :: "serialosc \<Rightarrow> bool" where
  "dedupInv st \<longleftrightarrow>
     distinct (map deviceKey (devices st)) \<and> emitted st = concat (map addEvents (devices st))"

section \<open>The codec: layout and round trip\<close>

lemma length_textEncode [simp]: "length (textEncode s) = length s"
  by (simp add: textEncode_def)

lemma alignedStringSize_bounds:
  "length s + 1 \<le> alignedStringSize s" "alignedStringSize s \<le> length s + 4"
  "alignedStringSize s mod 4 = 0"
  by (simp_all add: alignedStringSize_def ceil4_def Let_def) 

lemma length_oscString [simp]: "length (oscString s) = alignedStringSize s"
  using alignedStringSize_bounds(1) [of s] by (simp add: oscString_def)

lemma length_be32 [simp]: "length (be32 w) = 4"
  by (simp add: be32_def)

lemma replicate_zero_update: "(replicate m (0::byte))[0 := 0] = replicate m 0"
  by (cases m) simp_all

lemma writeString_zero:
  assumes "alignedStringSize s \<le> k"
  shows "writeString (pre @ replicate k 0) (length pre) s =
           Inr (pre @ oscString s @ replicate (k - alignedStringSize s) 0,
                length pre + alignedStringSize s)"
proof -
  let ?n = "length s"
  have n: "?n + 1 \<le> alignedStringSize s" by (rule alignedStringSize_bounds)
  with assms have k: "?n < k" by simp
  have set: "typedArraySet (pre @ replicate k 0) (textEncode s) (length pre) =
               Inr (pre @ textEncode s @ replicate (k - ?n) 0)"
    using k by (simp add: typedArraySet_def)
  have upd: "(pre @ textEncode s @ replicate (k - ?n) 0)[length pre + ?n := 0] =
               pre @ textEncode s @ replicate (k - ?n) 0"
    by (simp add: list_update_append replicate_zero_update)
  have split: "replicate (k - ?n) (0::byte) =
                 replicate (alignedStringSize s - ?n) 0 @ replicate (k - alignedStringSize s) 0"
    using n assms by (simp add: replicate_add [symmetric])
  have "writeString (pre @ replicate k 0) (length pre) s =
          Inr (pre @ textEncode s @ replicate (k - ?n) 0, length pre + alignedStringSize s)"
    unfolding writeString_def Let_def set sum.case length_textEncode upd
    by (simp add: alignedStringSize_def)
  also have "pre @ textEncode s @ replicate (k - ?n) 0 =
               pre @ oscString s @ replicate (k - alignedStringSize s) 0"
    by (simp add: oscString_def split)
  finally show ?thesis .
qed

lemma dataViewSet32_zero:
  assumes "4 \<le> k"
  shows "dataViewSet32 (pre @ replicate k 0) (length pre) w =
           Inr (pre @ be32 w @ replicate (k - 4) 0)"
  using assms by (simp add: dataViewSet32_def)

lemma writeArgs_zero:
  "length (concat (map argBytes vs)) \<le> k \<Longrightarrow>
   writeArgs vs (pre @ replicate k 0) (length pre) =
     Inr (pre @ concat (map argBytes vs) @ replicate (k - length (concat (map argBytes vs))) 0,
          length pre + length (concat (map argBytes vs)))"
proof (induction vs "pre @ replicate k (0::byte)" "length pre" arbitrary: pre k rule: writeArgs.induct)
  case 1
  then show ?case by simp
next
  case (2 i rest)
  from "2.prems" have k: "4 \<le> k" by simp
  have w: "writeInt32 (pre @ replicate k 0) (length pre) i =
             Inr ((pre @ be32 (word_of_int i)) @ replicate (k - 4) 0, length (pre @ be32 (word_of_int i)))"
    using k by (simp add: writeInt32_def dataViewSet32_zero)
  have "writeArgs rest ((pre @ be32 (word_of_int i)) @ replicate (k - 4) 0) (length (pre @ be32 (word_of_int i))) = 
      Inr ((pre @ be32 (word_of_int i)) @ concat (map argBytes rest) @ replicate (k - 4 - length (concat (map argBytes rest))) 0,
          length (pre @ be32 (word_of_int i)) + length (concat (map argBytes rest)))"
    apply (rule "2.hyps"[OF w])
    using "2.prems" by simp_all
  then show ?case using w by simp
next
  case (3 w rest)
  from "3.prems" have k: "4 \<le> k" by simp
  have w: "writeFloat32 (pre @ replicate k 0) (length pre) w =
             Inr ((pre @ be32 w) @ replicate (k - 4) 0, length (pre @ be32 w))"
    using k by (simp add: writeFloat32_def dataViewSet32_zero)
  have "writeArgs rest ((pre @ be32 w) @ replicate (k - 4) 0) (length (pre @ be32 w)) = 
      Inr ((pre @ be32 w) @ concat (map argBytes rest) @ replicate (k - 4 - length (concat (map argBytes rest))) 0,
          length (pre @ be32 w) + length (concat (map argBytes rest)))"
    apply (rule "3.hyps"[OF w])
    using "3.prems" by simp_all
  then show ?case using w by simp
next
  case (4 rest)
  from "4.prems" have k: "4 \<le> k" by simp
  have w: "writeFloat32 (pre @ replicate k 0) (length pre) nan_pattern =
             Inr ((pre @ be32 nan_pattern) @ replicate (k - 4) 0, length (pre @ be32 nan_pattern))"
    using k by (simp add: writeFloat32_def dataViewSet32_zero)
  have "writeArgs rest ((pre @ be32 nan_pattern) @ replicate (k - 4) 0) (length (pre @ be32 nan_pattern)) = 
      Inr ((pre @ be32 nan_pattern) @ concat (map argBytes rest) @ replicate (k - 4 - length (concat (map argBytes rest))) 0,
          length (pre @ be32 nan_pattern) + length (concat (map argBytes rest)))"
    apply (rule "4.hyps"[OF w])
    using "4.prems" by simp_all
  then show ?case using w by simp
next
  case (5 s rest)
  from "5.prems" have k: "alignedStringSize s \<le> k" by simp
  have w: "writeString (pre @ replicate k 0) (length pre) s =
             Inr ((pre @ oscString s) @ replicate (k - alignedStringSize s) 0, length (pre @ oscString s))"
    using writeString_zero [OF k] by simp
  have "writeArgs rest ((pre @ oscString s) @ replicate (k - alignedStringSize s) 0) (length (pre @ oscString s)) = 
      Inr ((pre @ oscString s) @ concat (map argBytes rest) @ replicate (k - alignedStringSize s - length (concat (map argBytes rest))) 0,
          length (pre @ oscString s) + length (concat (map argBytes rest)))"
    apply (rule "5.hyps"[OF w])
    using "5.prems" by simp_all
  then show ?case using w by simp
next
  case (6 rest)
  then show ?case by simp
qed


lemma tagArgs_eq:
  "tagArgs vs sz tt =
     (sz + length (concat (map argBytes (filter (\<lambda>v. case v of Str s \<Rightarrow> True | _ \<Rightarrow> False) vs))),
      tt @ concat (map tagOf vs))"
  by (induction vs sz tt rule: tagArgs.induct) simp_all

lemma numericSize_eq:
  "numericSize vs sz =
     sz + length (concat (map argBytes (filter (\<lambda>v. case v of Str s \<Rightarrow> False | _ \<Rightarrow> True) vs)))"
proof (induction vs sz rule: numericSize.induct)
  case (2 n rest sz)
  then show ?case by (cases n) simp_all
qed simp_all

lemma length_payload_split:
  "length (concat (map argBytes (filter (\<lambda>v. case v of Str s \<Rightarrow> True | _ \<Rightarrow> False) vs))) +
   length (concat (map argBytes (filter (\<lambda>v. case v of Str s \<Rightarrow> False | _ \<Rightarrow> True) vs))) =
   length (concat (map argBytes vs))"
  by (induction vs) (simp_all split: jsvalue.splits)

lemma encode_wireLayout: "encode addr vs = Inr (wireLayout addr vs)"
proof -
  let ?tags = "typeTagsOf vs"
  let ?p = "length (concat (map argBytes vs))"
  let ?sz = "alignedStringSize addr + alignedStringSize ?tags + ?p"
  have sz: "numericSize vs (fst (tagArgs vs (alignedStringSize addr) '','') + alignedStringSize ?tags) = ?sz"
    using length_payload_split [of vs] by (simp add: tagArgs_eq numericSize_eq)
  have tags: "snd (tagArgs vs (alignedStringSize addr) '','') = ?tags"
    by (simp add: tagArgs_eq typeTagsOf_def)
  have w1: "writeString (replicate ?sz 0) 0 addr =
              Inr (oscString addr @ replicate (alignedStringSize ?tags + ?p) 0, alignedStringSize addr)"
    using writeString_zero [of addr ?sz "[]"] by simp
  have w2: "writeString (oscString addr @ replicate (alignedStringSize ?tags + ?p) 0)
              (alignedStringSize addr) ?tags =
              Inr (oscString addr @ oscString ?tags @ replicate ?p 0,
                   alignedStringSize addr + alignedStringSize ?tags)"
    using writeString_zero [of ?tags "alignedStringSize ?tags + ?p" "oscString addr"] by simp
  have w3: "writeArgs vs (oscString addr @ oscString ?tags @ replicate ?p 0)
              (alignedStringSize addr + alignedStringSize ?tags) =
              Inr (oscString addr @ oscString ?tags @ concat (map argBytes vs),
                   alignedStringSize addr + alignedStringSize ?tags + ?p)"
    using writeArgs_zero [of vs ?p "oscString addr @ oscString ?tags"] by simp
  show ?thesis
    unfolding encode_def Let_def split_def sz tags w1 sum.case prod.case fst_conv snd_conv
      w2 w3
    by (simp add: wireLayout_def)
qed

lemma dvd_alignedStringSize: "4 dvd alignedStringSize s"
  by (simp add: alignedStringSize_def)

lemma dvd_length_argBytes: "4 dvd length (argBytes v)"
  by (cases v rule: argBytes.cases) (simp_all add: dvd_alignedStringSize)

lemma dvd_length_payload: "4 dvd length (concat (map argBytes vs))"
  by (induction vs) (simp_all add: dvd_length_argBytes)

lemma wireLayout_aligned: "length (wireLayout addr vs) mod 4 = 0"
proof -
  have "4 dvd length (wireLayout addr vs)"
    by (simp add: wireLayout_def dvd_alignedStringSize dvd_length_payload)
  then show ?thesis by (simp add: mod_eq_0_iff_dvd)
qed

lemma unat_of_char: "unat (of_char c :: byte) = of_char c"
proof -
  have "(of_char c :: byte) = of_nat (of_char c)" by (simp add: of_nat_of_char)
  moreover have "(of_char c :: nat) < 256" by simp
  ultimately show ?thesis by (simp add: unat_of_nat take_bit_nat_eq_self)
qed

lemma textDecode_textEncode: "\<not> startsWithBOM s \<Longrightarrow> textDecode (textEncode s) = s"
  by (simp add: textDecode_def startsWithBOM_def)
    (simp add: textEncode_def unat_of_char comp_def)

lemma of_char_byte_eq_0: "(of_char c :: byte) = 0 \<longleftrightarrow> c = CHR 0x00"
proof
  assume "(of_char c :: byte) = 0"
  then have "unat (of_char c :: byte) = 0" by simp
  then have "(of_char c :: nat) = of_char (CHR 0x00)" by (simp add: unat_of_char)
  then show "c = CHR 0x00" by (simp only: of_char_eq_iff)
qed simp

lemma textEncode_no_nul: "CHR 0x00 \<notin> set s \<Longrightarrow> 0 \<notin> set (textEncode s)"
  by (auto simp: textEncode_def of_char_byte_eq_0)

lemma scanNul_eq:
  "scanNul data off = off + length (takeWhile (\<lambda>b. b \<noteq> 0) (drop off data))"
proof (induction data off rule: scanNul.induct)
  case (1 data endpos)
  show ?case
  proof (cases "endpos < length data \<and> data ! endpos \<noteq> 0")
    case True
    then have "drop endpos data = data ! endpos # drop (Suc endpos) data"
      by (simp add: Cons_nth_drop_Suc)
    with True "1.IH" show ?thesis
      by (subst scanNul.simps) simp
  next
    case False
    then have "takeWhile (\<lambda>b. b \<noteq> 0) (drop endpos data) = []"
      by (cases "endpos < length data") (simp_all add: Cons_nth_drop_Suc [symmetric])
    with False show ?thesis
      by (subst scanNul.simps) auto
  qed
qed

lemma readString_eq:
  "readString data off =
     (textDecode (takeWhile (\<lambda>b. b \<noteq> 0) (drop off data)),
      off + ceil4 (length (takeWhile (\<lambda>b. b \<noteq> 0) (drop off data)) + 1) * 4)"
  by (simp add: readString_def subarray_def scanNul_eq Let_def takeWhile_eq_take [symmetric])

lemma takeWhile_oscString:
  assumes "0 \<notin> set (textEncode s)"
  shows "takeWhile (\<lambda>b. b \<noteq> 0) (oscString s @ post) = textEncode s"
proof -
  obtain m where m: "alignedStringSize s - length s = Suc m"
    using alignedStringSize_bounds(1) [of s] by (cases "alignedStringSize s - length s") simp_all
  have "oscString s @ post = textEncode s @ (0 # replicate m 0 @ post)"
    by (simp add: oscString_def m)
  moreover have "takeWhile (\<lambda>b. b \<noteq> 0) (textEncode s @ (0 # replicate m 0 @ post)) =
                   textEncode s @ takeWhile (\<lambda>b. b \<noteq> 0) (0 # replicate m 0 @ post)"
    by (rule takeWhile_append2) (use assms in auto)
  ultimately show ?thesis by simp
qed

lemma readString_oscString:
  assumes "CHR 0x00 \<notin> set s" and "\<not> startsWithBOM s"
  shows "readString (pre @ oscString s @ post) (length pre) = (s, length pre + alignedStringSize s)"
  using takeWhile_oscString [OF textEncode_no_nul [OF assms(1)]] textDecode_textEncode [OF assms(2)]
  by (simp add: readString_eq alignedStringSize_def)

lemma of_be32_be32:
  "of_be32 (ucast (drop_bit 24 w)) (ucast (drop_bit 16 w)) (ucast (drop_bit 8 w)) (ucast w) = w"
  unfolding of_be32_def
  apply (rule bit_word_eqI)
  apply (simp add: bit_simps)
  subgoal for n
    by (cases "n < 8"; cases "n < 16"; cases "n < 24"; simp) auto
  done

lemma dataViewGet32_be32: "dataViewGet32 (pre @ be32 w @ post) (length pre) = Inr w"
  by (simp add: dataViewGet32_def be32_def nth_append of_be32_be32)

lemma float32_number_nan_pattern: "float32_number nan_pattern = NaN"
  by (simp add: float32_number_def nan_pattern_def)

lemma sint_word_of_int_32:
  "- (2 ^ 31) \<le> i \<Longrightarrow> i < 2 ^ 31 \<Longrightarrow> sint (word_of_int i :: 32 word) = i"
  by (simp add: signed_of_int signed_take_bit_int_eq_self)

lemma readArgs_payload:
  "list_all supported vs \<Longrightarrow>
   readArgs (pre @ concat (map argBytes vs) @ post) (concat (map tagOf vs)) (length pre) acc =
     Inr (acc @ vs)"
proof (induction vs arbitrary: pre acc)
  case Nil
  then show ?case by simp
next
  case (Cons v vs)
  from Cons.prems have rest: "list_all supported vs" and v: "supported v" by simp_all
  have IH: "readArgs ((pre @ argBytes v) @ concat (map argBytes vs) @ post) (concat (map tagOf vs))
              (length (pre @ argBytes v)) (acc @ [v]) = Inr ((acc @ [v]) @ vs)"
    by (rule Cons.IH [OF rest])
  show ?case
  proof (cases v rule: supported.cases)
    case (1 i)
    with v have "readInt32 (pre @ be32 (word_of_int i) @ concat (map argBytes vs) @ post) (length pre) =
                   Inr (Whole i, length pre + 4)"
      by (simp add: readInt32_def dataViewGet32_be32 sint_word_of_int_32)
    with IH 1 show ?thesis by simp
  next
    case (2 w)
    with v have "readFloat32 (pre @ be32 w @ concat (map argBytes vs) @ post) (length pre) =
                   Inr (NonInteger w, length pre + 4)"
      by (simp add: readFloat32_def dataViewGet32_be32)
    with IH 2 show ?thesis by simp
  next
    case 3
    have "readFloat32 (pre @ be32 nan_pattern @ concat (map argBytes vs) @ post) (length pre) =
                   Inr (NaN, length pre + 4)"
      by (simp add: readFloat32_def dataViewGet32_be32 float32_number_nan_pattern)
    with IH 3 show ?thesis by simp
  next
    case (4 s)
    with v have "readString (pre @ oscString s @ concat (map argBytes vs) @ post) (length pre) =
                   (s, length pre + alignedStringSize s)"
      by (simp add: readString_oscString)
    with IH 4 show ?thesis by simp
  next
    case 5
    with v show ?thesis by simp
  qed
qed

lemma typeTagsOf_no_nul: "CHR 0x00 \<notin> set (typeTagsOf vs)"
proof -
  have "CHR 0x00 \<notin> set (tagOf v)" for v
    by (cases v rule: tagOf.cases) simp_all
  then show ?thesis by (simp add: typeTagsOf_def)
qed

lemma typeTagsOf_no_BOM: "\<not> startsWithBOM (typeTagsOf vs)"
  by (simp add: startsWithBOM_def typeTagsOf_def textEncode_def utf8BOM_def)

lemma decode_wireLayout:
  assumes addr: "CHR 0x00 \<notin> set addr" "\<not> startsWithBOM addr"
    and vs: "list_all supported vs"
  shows "decode (wireLayout addr vs) = Inr \<lparr>address = addr, args = vs\<rparr>"
proof -
  let ?tags = "typeTagsOf vs"
  let ?data = "wireLayout addr vs"
  have r1: "readString ?data 0 = (addr, alignedStringSize addr)"
    using readString_oscString [OF addr, of "[]"] by (simp add: wireLayout_def)
  have r2: "readString ?data (alignedStringSize addr) =
              (?tags, alignedStringSize addr + alignedStringSize ?tags)"
    using readString_oscString [OF typeTagsOf_no_nul typeTagsOf_no_BOM, of "oscString addr" vs]
    by (simp add: wireLayout_def)
  have "oscString ?tags = 44 # tl (oscString ?tags)"
    by (simp add: oscString_def typeTagsOf_def textEncode_def)
  then have "?data = oscString addr @ 44 # (tl (oscString ?tags) @ concat (map argBytes vs))"
    by (simp add: wireLayout_def)
  then have "length (oscString addr) < length ?data" "?data ! length (oscString addr) = 44"
    by (simp_all only: nth_append_length length_append list.size)
  then have comma: "alignedStringSize addr < length ?data" "?data ! alignedStringSize addr = 44"
    by simp_all
  have r3: "readArgs ?data (drop 1 ?tags) (alignedStringSize addr + alignedStringSize ?tags) [] =
              Inr vs"
    using readArgs_payload [OF vs, of "oscString addr @ oscString ?tags" "[]" "[]"]
    by (simp add: wireLayout_def typeTagsOf_def)
  show ?thesis
    unfolding decode_def r1 prod.case using comma r3 by (simp add: r2)
qed

section \<open>The handshake of a device\<close>

lemma core_receiveInitMsg: "core (receiveInitMsg d msg) = ackCore msg (core d)"
  by (simp add: receiveInitMsg_def core_def Let_def emitEvent_def send_def initializedCount_def)

lemma core_listeners_update:
  "core (addListeners ns d) = core d" "core (removeListeners ns d) = core d"
  by (simp_all add: addListeners_def removeListeners_def core_def initializedCount_def Let_def
        split: device_kind.splits)

lemma core_invoke: "core (invoke ns h vs d) = handlerCore h (core d)"
proof (cases h)
  case OnSysPrefix
  have "core (addListeners ns ((removeListeners ns d)\<lparr>prefix := param vs 0\<rparr>)) = core d"
    using core_listeners_update(2) [of ns d]
    by (simp add: core_listeners_update(1)) (simp add: core_def initializedCount_def)
  with OnSysPrefix show ?thesis by (simp add: core_receiveInitMsg)
qed (simp_all add: core_receiveInitMsg, simp_all add: core_def initializedCount_def emitEvent_def)

lemma sysListeners_receiveInitMsg: "sysListeners (receiveInitMsg d msg) = sysListeners d"
  by (simp add: receiveInitMsg_def sysListeners_def Let_def emitEvent_def send_def)

lemma sysListeners_addListeners: "sysListeners (addListeners ns d) = sysListeners d"
  by (simp add: addListeners_def sysListeners_def Let_def on_def split: device_kind.splits)

lemma sysListeners_removeListeners: "sysListeners (removeListeners ns d) = sysListeners d"
  by (simp add: removeListeners_def sysListeners_def Let_def removeListener_def
        split: device_kind.splits)

lemma sysListeners_invoke: "sysListeners (invoke ns h vs d) = sysListeners d"
proof (cases h)
  case OnSysPrefix
  have "sysListeners ((removeListeners ns d)\<lparr>prefix := param vs 0\<rparr>) = sysListeners d"
    using sysListeners_removeListeners [of ns d] by (simp add: sysListeners_def)
  with OnSysPrefix show ?thesis
    by (simp add: sysListeners_receiveInitMsg sysListeners_addListeners)
qed (simp_all add: sysListeners_receiveInitMsg, simp_all add: sysListeners_def emitEvent_def)

lemma foldl_invoke:
  "core (foldl (\<lambda>d' h. invoke ns h vs d') d hs) = foldl (\<lambda>c h. handlerCore h c) (core d) hs \<and>
   sysListeners (foldl (\<lambda>d' h. invoke ns h vs d') d hs) = sysListeners d"
  by (induction hs arbitrary: d) (simp_all add: core_invoke sysListeners_invoke)

lemma handlerCore_not_sys: "\<not> isSys h \<Longrightarrow> handlerCore h c = c"
  by (cases h) simp_all

lemma foldl_handlerCore_filter:
  "foldl (\<lambda>c h. handlerCore h c) c hs = foldl (\<lambda>c h. handlerCore h c) c (filter isSys hs)"
  by (induction hs arbitrary: c) (simp_all add: handlerCore_not_sys)

lemma filter_sys_listenersFor:
  "filter isSys (listenersFor (oscReceiver d) a) = map snd (filter (\<lambda>l. fst l = a) (sysListeners d))"
  by (simp add: listenersFor_def sysListeners_def filter_map comp_def conj_commute)

lemma emitTo_core:
  assumes "sysListeners d = startListeners"
  shows "core (emitTo ns d a vs) = addressCore a (core d)"
    and "sysListeners (emitTo ns d a vs) = startListeners"
proof -
  have "core (emitTo ns d a vs) =
          foldl (\<lambda>c h. handlerCore h c) (core d) (filter isSys (listenersFor (oscReceiver d) a))"
    unfolding emitTo_def using foldl_invoke foldl_handlerCore_filter by metis
  then show "core (emitTo ns d a vs) = addressCore a (core d)"
    by (simp add: filter_sys_listenersFor assms addressCore_def)
  show "sysListeners (emitTo ns d a vs) = startListeners"
    unfolding emitTo_def using foldl_invoke assms by metis
qed

lemma addressCore_message: "addressCore ''message'' c = c"
  by (simp add: addressCore_def startListeners_def)

lemma dispatch_core:
  assumes "sysListeners d = startListeners"
  shows "core (dispatch ns d m) = addressCore (fst m) (core d)"
    and "sysListeners (dispatch ns d m) = startListeners"
  using emitTo_core [OF emitTo_core(2) [OF assms]] emitTo_core(1) [OF assms]
  by (simp_all add: dispatch_def addressCore_message)

lemma run_core:
  assumes "sysListeners d = startListeners"
  shows "core (run ns d ms) = foldl (\<lambda>c a. addressCore a c) (core d) (map fst ms) \<and>
         sysListeners (run ns d ms) = startListeners"
  using assms unfolding run_def
  by (induction ms arbitrary: d) (simp_all add: dispatch_core)

lemma start_core:
  assumes "configured d"
  shows "sysListeners (start d) = startListeners" and "core (start d) = (trackedAcks, False, 0)"
proof -
  from assms have dbg: "list_all (\<lambda>l. snd l = OnDebugMessage) (listeners (oscReceiver d))"
    by (simp add: configured_def)
  have "filter (\<lambda>l. isSys (snd l)) (listeners (oscReceiver d)) = []"
    using dbg by (induction "listeners (oscReceiver d)") (auto simp: list_all_iff filter_empty_conv)
  then show "sysListeners (start d) = startListeners"
    by (simp add: start_def sysListeners_def listen_def on_def send_def startListeners_def Let_def)
  from assms show "core (start d) = (trackedAcks, False, 0)"
    by (simp add: start_def core_def configured_def send_def trackedAcks_def initializedCount_def
          Let_def)
qed

lemma distinct_trackedAcks: "distinct trackedAcks"
  by (simp add: trackedAcks_def)

lemma addressCore_ack: "a \<in> set trackedAcks \<Longrightarrow> addressCore a c = ackCore a c"
  by (auto simp: trackedAcks_def addressCore_def startListeners_def)


lemma addressCore_connected:
  "a \<noteq> ''/sys/disconnect'' \<Longrightarrow> addressCore a (ms, True, n) = (ms, True, n)"
  by (simp add: addressCore_def startListeners_def)

lemma remove1_filter_distinct:
  "distinct xs \<Longrightarrow> remove1 a (filter P xs) = filter (\<lambda>x. x \<noteq> a \<and> P x) xs"
  by (induction xs) (auto simp: remove1_idem)

lemma addressCore_other:
  "a \<notin> set trackedAcks \<Longrightarrow> a \<noteq> ''/sys/connect'' \<Longrightarrow> a \<noteq> ''/sys/disconnect'' \<Longrightarrow>
   addressCore a c = c"
  by (auto simp: trackedAcks_def addressCore_def startListeners_def)

lemma acks_core:
  assumes "''/sys/connect'' \<notin> set as" and "''/sys/disconnect'' \<notin> set as"
  shows "foldl (\<lambda>c a. addressCore a c) (trackedAcks, False, n) as =
           (if set trackedAcks \<subseteq> set as then ([], True, Suc n)
            else (filter (\<lambda>m. m \<notin> set as) trackedAcks, False, n))"
  using assms
proof (induction as rule: rev_induct)
  case Nil
  then show ?case by (simp add: trackedAcks_def)
next
  case (snoc a as)
  then have a: "a \<noteq> ''/sys/connect''" "a \<noteq> ''/sys/disconnect''"
    and as: "''/sys/connect'' \<notin> set as" "''/sys/disconnect'' \<notin> set as"
    by auto
  note IH = snoc.IH [OF as]
  show ?case
  proof (cases "set trackedAcks \<subseteq> set as")
    case True
    with IH a show ?thesis by (auto simp: addressCore_connected)
  next
    case False
    let ?rest = "filter (\<lambda>m. m \<notin> set as) trackedAcks"
    show ?thesis
    proof (cases "a \<in> set trackedAcks")
      case True
      have r: "remove1 a ?rest = filter (\<lambda>m. m \<notin> set (as @ [a])) trackedAcks"
        by (simp add: remove1_filter_distinct [OF distinct_trackedAcks] conj_commute)
      have e: "filter (\<lambda>m. m \<notin> set (as @ [a])) trackedAcks = [] \<longleftrightarrow>
                 set trackedAcks \<subseteq> set (as @ [a])"
        by (auto simp: filter_empty_conv)
      from IH False have "foldl (\<lambda>c a. addressCore a c) (trackedAcks, False, n) (as @ [a]) =
                            ackCore a (?rest, False, n)"
        by (simp add: addressCore_ack [OF True])
      also have "\<dots> = (if set trackedAcks \<subseteq> set (as @ [a]) then ([], True, Suc n)
                       else (filter (\<lambda>m. m \<notin> set (as @ [a])) trackedAcks, False, n))"
        unfolding ackCore.simps r using e by auto
      finally show ?thesis .
    next
      case other: False
      have same: "filter (\<lambda>m. m \<notin> set (as @ [a])) trackedAcks = ?rest"
        using other by (auto intro: filter_cong)
      have sub: "set trackedAcks \<subseteq> set (as @ [a]) \<longleftrightarrow> set trackedAcks \<subseteq> set as"
        using other by auto
      from IH False have "foldl (\<lambda>c a. addressCore a c) (trackedAcks, False, n) (as @ [a]) =
                            (?rest, False, n)"
        by (simp add: addressCore_other [OF other a])
      with False show ?thesis
        unfolding same sub by simp
    qed
  qed
qed


text \<open>No callback removes a subscription: the listeners of a device only grow.\<close>

lemma oscReceiver_receiveInitMsg: "oscReceiver (receiveInitMsg d msg) = oscReceiver d"
  by (simp add: receiveInitMsg_def Let_def emitEvent_def send_def)

lemma listeners_invoke_grow:
  "\<exists>ext. listeners (oscReceiver (invoke ns h vs d)) = listeners (oscReceiver d) @ ext"
  by (cases h)
    (auto simp: oscReceiver_receiveInitMsg emitEvent_def addListeners_def removeListeners_def
       removeListener_def on_def Let_def split: device_kind.splits)

lemma listeners_foldl_invoke_grow:
  "\<exists>ext. listeners (oscReceiver (foldl (\<lambda>d' h. invoke ns h vs d') d hs)) =
           listeners (oscReceiver d) @ ext"
proof (induction hs arbitrary: d)
  case Nil
  show ?case by simp
next
  case (Cons h hs)
  from listeners_invoke_grow [of ns h vs d] obtain e1 where
    e1: "listeners (oscReceiver (invoke ns h vs d)) = listeners (oscReceiver d) @ e1" ..
  from Cons.IH [of "invoke ns h vs d"] obtain e2 where
    "listeners (oscReceiver (foldl (\<lambda>d' h. invoke ns h vs d') (invoke ns h vs d) hs)) =
       listeners (oscReceiver (invoke ns h vs d)) @ e2" ..
  with e1 show ?case by simp
qed

lemma listeners_dispatch_grow:
  "\<exists>ext. listeners (oscReceiver (dispatch ns d m)) = listeners (oscReceiver d) @ ext"
proof -
  let ?d1 = "emitTo ns d (fst m) (snd m)"
  from listeners_foldl_invoke_grow [of ns "snd m" d] obtain e1 where
    e1: "listeners (oscReceiver ?d1) = listeners (oscReceiver d) @ e1"
    unfolding emitTo_def by blast
  from listeners_foldl_invoke_grow [of ns "Str (fst m) # snd m" ?d1] obtain e2 where
    "listeners (oscReceiver (dispatch ns d m)) = listeners (oscReceiver ?d1) @ e2"
    unfolding emitTo_def dispatch_def by blast
  with e1 show ?thesis by simp
qed

lemma listeners_run_grow:
  "\<exists>ext. listeners (oscReceiver (run ns d ms)) = listeners (oscReceiver d) @ ext"
  unfolding run_def
proof (induction ms arbitrary: d)
  case Nil
  show ?case by simp
next
  case (Cons m ms)
  from listeners_dispatch_grow [of ns d m] obtain e1 where
    e1: "listeners (oscReceiver (dispatch ns d m)) = listeners (oscReceiver d) @ e1" ..
  from Cons.IH [of "dispatch ns d m"] obtain e2 where
    "listeners (oscReceiver (foldl (dispatch ns) (dispatch ns d m) ms)) =
       listeners (oscReceiver (dispatch ns d m)) @ e2" ..
  with e1 show ?case by simp
qed

section \<open>The listener limit\<close>

text \<open>
  When, at every address, the listeners a device has and the registrations its messages ask
  for stay within the limit together, no registration raises the exception: with the check
  of \<open>on\<close> in place, every step returns the state that the step without the check
  returns.
\<close>

lemma listenerCount_on:
  "length (listenersFor (on r a h) b) = length (listenersFor r b) + (if a = b then 1 else 0)"
  by (simp add: listenersFor_def on_def)

lemma distinct_deviceAddresses: "distinct (deviceAddresses k p)"
  by (cases k) (simp_all add: deviceAddresses_def)

lemma addListenersWithLimit_ok:
  assumes "\<forall>a\<in>set (deviceAddresses (kind d) (templateString ns (prefix d))). listenerCount d a < listenerLimit"
  shows "addListenersWithLimit ns d = Inr (addListeners ns d)"
  using assms
  by (cases "kind d")
    (simp_all add: addListenersWithLimit_def addListeners_def deviceAddresses_def onWithLimit_def
       listenerCount_on Let_def)

lemma listenerCount_addListeners:
  "listenerCount (addListeners ns d) a =
     listenerCount d a + count_list (deviceAddresses (kind d) (templateString ns (prefix d))) a"
  by (cases "kind d") (auto simp: addListeners_def deviceAddresses_def listenerCount_on Let_def)

lemma kind_receiveInitMsg [simp]: "kind (receiveInitMsg d msg) = kind d"
  by (simp add: receiveInitMsg_def Let_def emitEvent_def send_def)

lemma kind_addListeners [simp]: "kind (addListeners ns d) = kind d"
  by (simp add: addListeners_def Let_def split: device_kind.splits)

lemma kind_removeListeners [simp]: "kind (removeListeners ns d) = kind d"
  by (simp add: removeListeners_def Let_def split: device_kind.splits)

lemma oscReceiver_removeListeners [simp]:
  "oscReceiver (removeListeners ns d) = oscReceiver d"
  by (simp add: removeListeners_def removeListener_def Let_def split: device_kind.splits)

lemma kind_invoke [simp]: "kind (invoke ns h vs d) = kind d"
  by (cases h) (simp_all add: emitEvent_def)

lemma listenerCount_invoke:
  "listenerCount (invoke ns h vs d) a =
     listenerCount d a + (if h = OnSysPrefix
                then count_list (deviceAddresses (kind d) (templateString ns (param vs 0))) a
                else 0)"
  by (cases h) (simp_all add: oscReceiver_receiveInitMsg listenerCount_addListeners emitEvent_def)

lemma invokeWithLimit_ok:
  assumes "h = OnSysPrefix \<Longrightarrow>
           \<forall>a\<in>set (deviceAddresses (kind d) (templateString ns (param vs 0))). listenerCount d a < listenerLimit"
  shows "invokeWithLimit ns h vs d = Inr (invoke ns h vs d)"
proof (cases h)
  case OnSysPrefix
  let ?d = "(removeListeners ns d)\<lparr>prefix := param vs 0\<rparr>"
  from assms [OF OnSysPrefix]
  have "\<forall>a\<in>set (deviceAddresses (kind ?d) (templateString ns (prefix ?d))). listenerCount ?d a < listenerLimit"
    by simp
  from addListenersWithLimit_ok [OF this] OnSysPrefix show ?thesis by simp
qed simp_all


lemma callListeners_ok:
  assumes "\<And>a. listenerCount d a +
             count_list hs OnSysPrefix *
               count_list (deviceAddresses (kind d) (templateString ns (param vs 0))) a
             \<le> listenerLimit"
  shows "callListeners ns hs vs d = Inr (foldl (\<lambda>d' h. invoke ns h vs d') d hs) \<and>
         (\<forall>a. listenerCount (foldl (\<lambda>d' h. invoke ns h vs d') d hs) a =
                listenerCount d a +
                count_list hs OnSysPrefix *
                  count_list (deviceAddresses (kind d) (templateString ns (param vs 0))) a) \<and>
         kind (foldl (\<lambda>d' h. invoke ns h vs d') d hs) = kind d"
  using assms
proof (induction hs arbitrary: d)
  case Nil
  show ?case by simp
next
  case (Cons h hs)
  let ?c = "\<lambda>a. count_list (deviceAddresses (kind d) (templateString ns (param vs 0))) a"
  let ?d1 = "invoke ns h vs d"
  have ok: "invokeWithLimit ns h vs d = Inr ?d1"
  proof (rule invokeWithLimit_ok)
    assume h: "h = OnSysPrefix"
    show "\<forall>a\<in>set (deviceAddresses (kind d) (templateString ns (param vs 0))). listenerCount d a < listenerLimit"
    proof
      fix a assume "a \<in> set (deviceAddresses (kind d) (templateString ns (param vs 0)))"
      then have "?c a \<noteq> 0" by (simp add: count_list_0_iff)
      moreover from Cons.prems [of a] h
      have "listenerCount d a + (count_list hs OnSysPrefix + 1) * ?c a \<le> listenerLimit"
        by simp
      ultimately show "listenerCount d a < listenerLimit"
        by (cases "?c a") auto
    qed
  qed
  have l1: "listenerCount ?d1 a = listenerCount d a + (if h = OnSysPrefix then ?c a else 0)" for a
    by (rule listenerCount_invoke)
  have pre: "listenerCount ?d1 a +
               count_list hs OnSysPrefix *
                 count_list (deviceAddresses (kind ?d1) (templateString ns (param vs 0))) a
               \<le> listenerLimit" for a
    using Cons.prems [of a] by (simp add: l1 split: if_splits)
  from Cons.IH [OF pre] ok show ?case
    by (simp add: l1 algebra_simps)
qed

lemma count_list_filter_sys:
  "count_list (filter isSys hs) OnSysPrefix = count_list hs OnSysPrefix"
  by (induction hs) auto

lemma count_prefix_listenersFor:
  assumes "sysListeners d = startListeners"
  shows "count_list (listenersFor (oscReceiver d) a) OnSysPrefix =
           (if a = ''/sys/prefix'' then 1 else 0)"
proof -
  have "count_list (listenersFor (oscReceiver d) a) OnSysPrefix =
          count_list (map snd (filter (\<lambda>l. fst l = a) startListeners)) OnSysPrefix"
    using count_list_filter_sys [of "listenersFor (oscReceiver d) a"]
    by (simp add: filter_sys_listenersFor assms)
  also have "\<dots> = (if a = ''/sys/prefix'' then 1 else 0)"
    by (simp add: startListeners_def)
  finally show ?thesis .
qed

lemma emitToWithLimit_ok:
  assumes "sysListeners d = startListeners"
    and "\<And>b. listenerCount d b +
               (if a = ''/sys/prefix''
                then count_list (deviceAddresses (kind d) (templateString ns (param vs 0))) b
                else 0) \<le> listenerLimit"
  shows "emitToWithLimit ns d a vs = Inr (emitTo ns d a vs)"
    and "listenerCount (emitTo ns d a vs) b =
           listenerCount d b +
           (if a = ''/sys/prefix''
            then count_list (deviceAddresses (kind d) (templateString ns (param vs 0))) b
            else 0)"
    and "kind (emitTo ns d a vs) = kind d"
proof -
  have "listenerCount d b +
               count_list (listenersFor (oscReceiver d) a) OnSysPrefix *
                 count_list (deviceAddresses (kind d) (templateString ns (param vs 0))) b
             \<le> listenerLimit" for b
    using assms(2) [of b] by (simp add: count_prefix_listenersFor [OF assms(1)] split: if_splits)
  from callListeners_ok [OF this]
  show "emitToWithLimit ns d a vs = Inr (emitTo ns d a vs)"
    and "listenerCount (emitTo ns d a vs) b =
           listenerCount d b +
           (if a = ''/sys/prefix''
            then count_list (deviceAddresses (kind d) (templateString ns (param vs 0))) b
            else 0)"
    and "kind (emitTo ns d a vs) = kind d"
    by (simp_all add: emitToWithLimit_def emitTo_def count_prefix_listenersFor [OF assms(1)])
qed

lemma dispatchWithLimit_ok:
  assumes "sysListeners d = startListeners"
    and "\<And>b. listenerCount d b + registrations ns (kind d) [m] b \<le> listenerLimit"
  shows "dispatchWithLimit ns d m = Inr (dispatch ns d m)"
    and "listenerCount (dispatch ns d m) b = listenerCount d b + registrations ns (kind d) [m] b"
    and "kind (dispatch ns d m) = kind d"
proof -
  let ?d1 = "emitTo ns d (fst m) (snd m)"
  have a2: "listenerCount d b +
               (if fst m = ''/sys/prefix''
                then count_list (deviceAddresses (kind d) (templateString ns (param (snd m) 0))) b
                else 0) \<le> listenerLimit" for b
    using assms(2) [of b] by (simp add: prefixOf_def split: if_splits)
  note e1 = emitToWithLimit_ok [OF assms(1) a2]
  have s1: "sysListeners ?d1 = startListeners"
    by (rule emitTo_core(2) [OF assms(1)])
  have a3: "listenerCount ?d1 b +
               (if ''message'' = ''/sys/prefix''
                then count_list (deviceAddresses (kind ?d1)
                       (templateString ns (param (Str (fst m) # snd m) 0))) b
                else 0) \<le> listenerLimit" for b
    using a2 [of b] by (simp add: e1(2))
  note e2 = emitToWithLimit_ok [OF s1 a3]
  show "dispatchWithLimit ns d m = Inr (dispatch ns d m)"
    by (simp add: dispatchWithLimit_def dispatch_def e1(1) e2(1))
  show "listenerCount (dispatch ns d m) b = listenerCount d b + registrations ns (kind d) [m] b"
    using e2(2) [of b] e1(2) [of b] by (simp add: dispatch_def prefixOf_def)
  show "kind (dispatch ns d m) = kind d"
    using e2(3) e1(3) by (simp add: dispatch_def)
qed

lemma runWithLimit_ok:
  assumes "sysListeners d = startListeners"
    and "\<And>b. listenerCount d b + registrations ns (kind d) ms b \<le> listenerLimit"
  shows "runWithLimit ns d ms = Inr (run ns d ms)"
  using assms
proof (induction ms arbitrary: d)
  case Nil
  show ?case by (simp add: run_def)
next
  case (Cons m ms)
  let ?d1 = "dispatch ns d m"
  have a: "listenerCount d b + registrations ns (kind d) [m] b \<le> listenerLimit" for b
    using Cons.prems(2) [of b] by simp
  note d1 = dispatchWithLimit_ok [OF Cons.prems(1) a]
  have s1: "sysListeners ?d1 = startListeners"
    by (rule dispatch_core(2) [OF Cons.prems(1)])
  have b1: "listenerCount ?d1 b + registrations ns (kind ?d1) ms b \<le> listenerLimit" for b
    using Cons.prems(2) [of b] by (simp add: d1(2) d1(3))
  from Cons.IH [OF s1 b1] d1(1) show ?case by (simp add: run_def)
qed

lemma append_suffix_neq:
  assumes "take (length s) (rev t) \<noteq> rev s"
  shows "p @ s \<noteq> t"
proof
  assume "p @ s = t"
  then have "rev t = rev s @ rev p" by auto
  then have "take (length s) (rev t) = rev s" by simp
  with assms show False by simp
qed

lemma append_last_neq:
  assumes "s \<noteq> []" and "t \<noteq> []" and "last s \<noteq> last t"
  shows "p @ s \<noteq> q @ t"
proof
  assume "p @ s = q @ t"
  then have "last (p @ s) = last (q @ t)" by simp
  with assms show False by simp
qed

lemma deviceAddress_not_start:
  assumes "a \<in> set (deviceAddresses k p)"
  shows "a \<notin> set (map fst startListeners)" and "a \<noteq> ''message''"
proof -
  have n: "p @ s \<noteq> t"
    if "s \<in> {''/grid/key'', ''/tilt'', ''/enc/key'', ''/enc/delta''}"
      and "t \<in> set (map fst startListeners) \<union> {''message''}" for s t
    using that by (auto simp: startListeners_def intro!: append_suffix_neq)
  from assms obtain s where s: "a = p @ s" "s \<in> {''/grid/key'', ''/tilt'', ''/enc/key'', ''/enc/delta''}"
    by (cases k) (auto simp: deviceAddresses_def)
  from n [OF s(2)] s(1) show "a \<notin> set (map fst startListeners)" and "a \<noteq> ''message''"
    by auto
qed

lemma count_deviceAddresses:
  assumes "a \<in> set (deviceAddresses k p)"
  shows "count_list (deviceAddresses k q) a = (if q = p then 1 else 0)"
proof -
  have 1: "q @ ''/tilt'' \<noteq> p @ ''/grid/key''" "q @ ''/grid/key'' \<noteq> p @ ''/tilt''"
    "q @ ''/enc/delta'' \<noteq> p @ ''/enc/key''" "q @ ''/enc/key'' \<noteq> p @ ''/enc/delta''"
    by (rule append_last_neq; simp)+
  from assms show ?thesis
    by (cases k) (auto simp: deviceAddresses_def 1)
qed

lemma registrations_zero:
  assumes "\<And>m. m \<in> set ms \<Longrightarrow> fst m = ''/sys/prefix'' \<Longrightarrow>
             a \<notin> set (deviceAddresses k (prefixOf ns m))"
  shows "registrations ns k ms a = 0"
  using assms by (induction ms) (simp_all add: count_list_0_iff)

lemma registrations_at:
  assumes "a \<in> set (deviceAddresses k p)"
  shows "registrations ns k ms a =
           length (filter (\<lambda>m. fst m = ''/sys/prefix'' \<and> prefixOf ns m = p) ms)"
  by (induction ms) (simp_all add: count_deviceAddresses [OF assms])

lemma listenersFor_listen [simp]: "listenersFor (listen r) a = listenersFor r a"
  by (simp add: listenersFor_def listen_def)

lemma registerAll_ok:
  assumes "\<And>a. length (listenersFor r a) + count_list (map fst ls) a \<le> listenerLimit"
  shows "registerAll r ls = Inr (foldl (\<lambda>r' l. on r' (fst l) (snd l)) r ls)"
  using assms
proof (induction ls arbitrary: r)
  case Nil
  show ?case by simp
next
  case (Cons l ls)
  from Cons.prems [of "fst l"] have ok: "onWithLimit r (fst l) (snd l) = Inr (on r (fst l) (snd l))"
    by (simp add: onWithLimit_def)
  have "length (listenersFor (on r (fst l) (snd l)) a) + count_list (map fst ls) a \<le> listenerLimit"
    for a
    using Cons.prems [of a] by (simp add: listenerCount_on split: if_splits)
  from Cons.IH [OF this] ok show ?case by simp
qed

lemma length_listenersFor_foldl_on:
  "length (listenersFor (foldl (\<lambda>r' l. on r' (fst l) (snd l)) r ls) a) =
     length (listenersFor r a) + count_list (map fst ls) a"
  by (induction ls arbitrary: r) (simp_all add: listenerCount_on)

lemma oscReceiver_start:
  "oscReceiver (start d) =
     foldl (\<lambda>r' l. on r' (fst l) (snd l)) (listen (oscReceiver d)) startListeners"
  by (simp add: start_def startListeners_def send_def Let_def)

lemma count_list_distinct: "distinct xs \<Longrightarrow> count_list xs a \<le> 1"
  by (induction xs) (auto simp: count_list_0_iff)

lemma count_startListeners: "count_list (map fst startListeners) a \<le> 1"
  by (rule count_list_distinct) (simp add: startListeners_def)

lemma listenerCount_configured:
  assumes "listeners (oscReceiver d) = [] \<or>
           listeners (oscReceiver d) = [(''message'', OnDebugMessage)]"
  shows "listenerCount d a \<le> 1" and "a \<noteq> ''message'' \<Longrightarrow> listenerCount d a = 0"
  using assms by (auto simp: listenersFor_def)

lemma startWithLimit_ok:
  assumes "listeners (oscReceiver d) = [] \<or>
           listeners (oscReceiver d) = [(''message'', OnDebugMessage)]"
  shows "startWithLimit d = Inr (start d)"
proof -
  have "length (listenersFor (listen (oscReceiver d)) a) + count_list (map fst startListeners) a
          \<le> listenerLimit" for a
    using listenerCount_configured(1) [OF assms, of a] count_startListeners [of a]
    by (simp add: listenerLimit_def)
  from registerAll_ok [OF this] have r:
    "registerAll (listen (oscReceiver d)) startListeners =
       Inr (foldl (\<lambda>r' l. on r' (fst l) (snd l)) (listen (oscReceiver d)) startListeners)" .
  show ?thesis
    unfolding startWithLimit_def r by (simp add: start_def startListeners_def Let_def)
qed

lemma kind_start: "kind (start d) = kind d"
  by (simp add: start_def send_def Let_def)

lemma listenerCount_start:
  assumes "listeners (oscReceiver d) = [] \<or>
           listeners (oscReceiver d) = [(''message'', OnDebugMessage)]"
  shows "listenerCount (start d) a \<le> 2"
    and "a \<notin> set (map fst startListeners) \<Longrightarrow> a \<noteq> ''message'' \<Longrightarrow> listenerCount (start d) a = 0"
proof -
  have l: "listenerCount (start d) a = listenerCount d a + count_list (map fst startListeners) a"
    by (simp add: oscReceiver_start length_listenersFor_foldl_on)
  from l listenerCount_configured(1) [OF assms, of a] count_startListeners [of a]
  show "listenerCount (start d) a \<le> 2" by simp
  assume "a \<notin> set (map fst startListeners)" and "a \<noteq> ''message''"
  with l listenerCount_configured(2) [OF assms, of a] show "listenerCount (start d) a = 0"
    by (simp add: count_list_0_iff)
qed

lemma start_within_limit:
  assumes "listeners (oscReceiver d) = [] \<or>
           listeners (oscReceiver d) = [(''message'', OnDebugMessage)]"
    and "\<And>p. length (filter (\<lambda>m. fst m = ''/sys/prefix'' \<and> prefixOf ns m = p) ms) \<le> listenerLimit"
  shows "listenerCount (start d) b + registrations ns (kind (start d)) ms b \<le> listenerLimit"
proof (cases "\<exists>m\<in>set ms. fst m = ''/sys/prefix'' \<and>
                b \<in> set (deviceAddresses (kind (start d)) (prefixOf ns m))")
  case True
  then obtain m where m: "b \<in> set (deviceAddresses (kind (start d)) (prefixOf ns m))" by blast
  from deviceAddress_not_start [OF m] listenerCount_start(2) [OF assms(1)]
  have "listenerCount (start d) b = 0" by blast
  with registrations_at [OF m, of ns ms] assms(2) [of "prefixOf ns m"] show ?thesis by simp
next
  case False
  then have "registrations ns (kind (start d)) ms b = 0" by (intro registrations_zero) blast
  with listenerCount_start(1) [OF assms(1), of b] show ?thesis by (simp add: listenerLimit_def)
qed

text \<open>
  The bound cannot be dropped: the eleventh \<open>/sys/prefix\<close> with the prefix \<open>/monome\<close>
  raises \<open>TypeError\<close> in the callback of a \<open>Grid\<close>, before the acknowledgments that
  follow it are handled.
\<close>

lemma listener_limit_reached:
  "runWithLimit (\<lambda>n. []) (start (newDevice GridClass False (Str ''127.0.0.1'') (Num (Whole 9000))))
     (replicate 11 (''/sys/prefix'', [Str ''/monome'']) @
      [(''/sys/size'', [Num (Whole 8), Num (Whole 8)]), (''/sys/rotation'', [Num (Whole 0)]),
       (''/sys/host'', [Str ''127.0.0.1'']), (''/sys/port'', [Num (Whole 9000)])]) =
     Inl TypeError"
  by code_simp

section \<open>The discovery client\<close>

lemma deviceKey_announced:
  "find (\<lambda>d. info_id d = ident \<and> info_devicePort d = p) (devices st) = None \<Longrightarrow>
   \<exists>d. deviceKey d = (ident, p) \<and>
       devices (onSerialoscDevice st ident model p) = devices st @ [d] \<and>
       emitted (onSerialoscDevice st ident model p) = emitted st @ addEvents d"
  by (simp add: onSerialoscDevice_def Let_def emitDevice_def addEvents_def deviceKey_def
        split: option.splits)

lemma find_key_None:
  "find (\<lambda>d. info_id d = ident \<and> info_devicePort d = p) ds = None \<longleftrightarrow>
   (ident, p) \<notin> set (map deviceKey ds)"
  by (auto simp: find_None_iff deviceKey_def)

lemma announce_known:
  "announceKey a \<in> set (map deviceKey (devices st)) \<Longrightarrow> announce st a = st"
  using find_key_None [of "fst a" "snd (snd a)" "devices st"]
  by (auto simp: announce_def announceKey_def onSerialoscDevice_def Let_def split: option.splits)

lemma announce_new:
  assumes "announceKey a \<notin> set (map deviceKey (devices st))"
  shows "\<exists>d. deviceKey d = announceKey a \<and> devices (announce st a) = devices st @ [d] \<and>
             emitted (announce st a) = emitted st @ addEvents d"
  using assms deviceKey_announced [of "fst a" "snd (snd a)" st "fst (snd a)"]
    find_key_None [of "fst a" "snd (snd a)" "devices st"]
  by (simp add: announce_def announceKey_def)

lemma announce_inv:
  assumes "dedupInv st"
  shows "dedupInv (announce st a) \<and>
         set (map deviceKey (devices (announce st a))) =
           insert (announceKey a) (set (map deviceKey (devices st)))"
proof (cases "announceKey a \<in> set (map deviceKey (devices st))")
  case True
  with assms show ?thesis by (auto simp: announce_known)
next
  case False
  from announce_new [OF False] obtain d where
    d: "deviceKey d = announceKey a" "devices (announce st a) = devices st @ [d]"
       "emitted (announce st a) = emitted st @ addEvents d"
    by blast
  with assms False show ?thesis by (auto simp: dedupInv_def)
qed

lemma announcements_inv:
  assumes "dedupInv st"
  shows "dedupInv (foldl announce st anns) \<and>
         set (map deviceKey (devices (foldl announce st anns))) =
           set (map announceKey anns) \<union> set (map deviceKey (devices st))"
  using assms
proof (induction anns arbitrary: st)
  case Nil
  then show ?case by simp
next
  case (Cons a anns)
  from announce_inv [OF Cons.prems, of a] Cons.IH [of "announce st a"]
  show ?case by auto
qed

lemma filter_unique_key:
  assumes "distinct (map f xs)" and "k \<in> set (map f xs)"
  shows "\<exists>d. filter (\<lambda>x. f x = k) xs = [d]"
  using assms
proof (induction xs)
  case Nil
  then show ?case by simp
next
  case (Cons x xs)
  show ?case
  proof (cases "f x = k")
    case True
    from Cons.prems(1) have "f x \<notin> f ` set xs" by simp
    with True have "\<forall>y\<in>set xs. f y \<noteq> k" by blast
    then have "filter (\<lambda>x. f x = k) xs = []"
      by (simp add: filter_empty_conv)
    with True show ?thesis by simp
  next
    case False
    with Cons show ?thesis by auto
  qed
qed

lemma filter_addEvents:
  "filter (\<lambda>e. deviceKey (snd e) = k) (concat (map addEvents ds)) =
     concat (map addEvents (filter (\<lambda>d. deviceKey d = k) ds))"
  by (induction ds) (simp_all add: addEvents_def)

lemma find_key_Some:
  "find (\<lambda>d. info_id d = ident \<and> info_devicePort d = p) ds = Some d \<Longrightarrow>
   d \<in> set ds \<and> deviceKey d = (ident, p)"
  by (auto simp: find_Some_iff deviceKey_def)

lemma filter_name_addEvents:
  "filter (\<lambda>e. fst e = ''device:add'') (addEvents d) =
     (if info_id d = ''device'' then addEvents d else [(''device:add'', d)])"
proof -
  have "''device:add'' = ''device'' @ '':add''" by simp
  then have "info_id d @ '':add'' = ''device:add'' \<longleftrightarrow> info_id d = ''device''"
    by (metis same_append_eq append_same_eq)
  then show ?thesis by (simp add: addEvents_def)
qed

section \<open>Claims about the codec\<close>

lemma readArgs_numericTruncated:
  "(readArgs data tags offset acc = Inl RangeError) = numericTruncated data tags offset \<and>
   ((\<exists>vs. readArgs data tags offset acc = Inr vs) = (\<not> numericTruncated data tags offset))"
proof (induction tags arbitrary: offset acc)
  case Nil
  show ?case by simp
next
  case (Cons tag tags)
  show ?case
  proof (cases "tag = CHR ''i'' \<or> tag = CHR ''f''")
    case True
    show ?thesis
    proof (cases "length data < offset + 4")
      case True
      with \<open>tag = CHR ''i'' \<or> tag = CHR ''f''\<close> show ?thesis
        by (auto simp: readInt32_def readFloat32_def dataViewGet32_def)
    next
      case False
      with \<open>tag = CHR ''i'' \<or> tag = CHR ''f''\<close> Cons.IH show ?thesis
        by (auto simp: readInt32_def readFloat32_def dataViewGet32_def)
    qed
  next
    case False
    with Cons.IH show ?thesis
      by (simp add: split_def)
  qed
qed

lemma decode_result:
  "decode data =
     (if paddedAddressSize data < length data \<and> data ! paddedAddressSize data = 44
      then (case readArgs data (drop 1 (fst (readString data (paddedAddressSize data))))
                   (snd (readString data (paddedAddressSize data))) [] of
              Inl e \<Rightarrow> Inl e
            | Inr vs \<Rightarrow> Inr \<lparr>address = textDecode (addressBytes data), args = vs\<rparr>)
      else Inr \<lparr>address = textDecode (addressBytes data), args = []\<rparr>)"
proof -
  have r: "readString data 0 = (textDecode (addressBytes data), paddedAddressSize data)"
    by (simp add: readString_eq paddedAddressSize_def addressBytes_def)
  show ?thesis
    unfolding decode_def r prod.case by (auto simp: split_def)
qed

text \<open>
  C1, as the code has it. Round trip: for every address and every argument list made of
  whole numbers in the range of Int32, numbers that are not whole given as Float32 values,
  NaN, and strings, where the address and the strings are well-formed (no unpaired
  surrogate), have no NUL character and do not start with a byte order mark, \<open>encode\<close>
  returns a buffer and \<open>decode\<close> of that buffer is the message, with the same address and
  the same arguments in the same order. A number carries no kind of its own: the tag on the
  wire is \<open>i\<close> exactly for the whole numbers.
\<close>

theorem encode_decode_roundtrip:
  assumes "CHR 0x00 \<notin> set addr" and "\<not> startsWithBOM addr" and "list_all supported vs"
  shows "\<exists>buffer. encode addr vs = Inr buffer \<and>
                  decode buffer = Inr \<lparr>address = addr, args = vs\<rparr>"
  using decode_wireLayout [OF assms] encode_wireLayout [of addr vs] by simp

theorem encode_decode_roundtrip_witness:
  "CHR 0x00 \<notin> set ''/grid/led'' \<and> \<not> startsWithBOM ''/grid/led'' \<and>
   list_all supported [Num (Whole 1), Str ''hi'', Num (NonInteger 0x3FC00000), Num NaN] \<and>
   (\<exists>buffer.
      encode ''/grid/led'' [Num (Whole 1), Str ''hi'', Num (NonInteger 0x3FC00000), Num NaN] =
        Inr buffer \<and>
      decode buffer =
        Inr \<lparr>address = ''/grid/led'',
             args = [Num (Whole 1), Str ''hi'', Num (NonInteger 0x3FC00000), Num NaN]\<rparr>)"
proof -
  have a: "CHR 0x00 \<notin> set ''/grid/led''" by simp
  have b: "\<not> startsWithBOM ''/grid/led''" by code_simp
  have hi: "\<not> startsWithBOM ''hi''" by code_simp
  have f: "float32_number 0x3FC00000 = NonInteger 0x3FC00000"
    by code_simp
  have v: "list_all supported [Num (Whole 1), Str ''hi'', Num (NonInteger 0x3FC00000), Num NaN]"
    by (simp add: f hi)
  from encode_decode_roundtrip [OF a b v] a b v show ?thesis by blast
qed

text \<open>
  C1, as stated, fails: 2147483648 is a Float32 value (its binary32 pattern is 4F000000);
  it is whole, so \<open>encode\<close> tags it \<open>i\<close> and writes it modulo \<open>2^32\<close>, and
  \<open>decode\<close> returns -2147483648.
\<close>

theorem encode_decode_roundtrip_counterexample:
  "float32_number 0x4F000000 = Whole 2147483648 \<and>
   encode ''/a'' [Num (Whole 2147483648)] = Inr [47, 97, 0, 0, 44, 105, 0, 0, 128, 0, 0, 0] \<and>
   decode [47, 97, 0, 0, 44, 105, 0, 0, 128, 0, 0, 0] =
     Inr \<lparr>address = ''/a'', args = [Num (Whole (- 2147483648))]\<rparr>"
proof -
  have "float32_number 0x4F000000 = Whole 2147483648"
    by code_simp
  moreover
  have "encode ''/a'' [Num (Whole 2147483648)] = Inr [47, 97, 0, 0, 44, 105, 0, 0, 128, 0, 0, 0]"
    by code_simp
  moreover have "decode [47, 97, 0, 0, 44, 105, 0, 0, 128, 0, 0, 0] =
                   Inr \<lparr>address = ''/a'', args = [Num (Whole (- 2147483648))]\<rparr>"
    by code_simp
  ultimately show ?thesis by simp
qed

text \<open>
  C5, as the code has it. A buffer in which the four bytes of an \<open>i\<close> or \<open>f\<close> argument
  extend past the end makes \<open>decode\<close> fail with the \<open>RangeError\<close> of the \<open>DataView\<close>,
  and no message is returned; every other buffer is decoded to a message. (A string
  argument that the buffer cuts short is returned as far as the buffer goes.)
\<close>

theorem decode_truncated_numeric:
  "(decode data = Inl RangeError) = truncatedNumeric data \<and>
   ((\<exists>m. decode data = Inr m) = (\<not> truncatedNumeric data))"
proof -
  let ?o = "paddedAddressSize data"
  have t: "truncatedNumeric data =
             (?o < length data \<and> data ! ?o = 44 \<and>
              numericTruncated data (drop 1 (fst (readString data ?o)))
                (snd (readString data ?o)))"
    by (simp add: truncatedNumeric_def readString_eq [of data 0] paddedAddressSize_def
          addressBytes_def split_def)
  show ?thesis
  proof (cases "?o < length data \<and> data ! ?o = 44")
    case True
    let ?r = "readArgs data (drop 1 (fst (readString data ?o))) (snd (readString data ?o)) []"
    from readArgs_numericTruncated [of data "drop 1 (fst (readString data ?o))"
        "snd (readString data ?o)" "[]"]
    have r: "(?r = Inl RangeError) =
               numericTruncated data (drop 1 (fst (readString data ?o))) (snd (readString data ?o))"
      "(\<exists>vs. ?r = Inr vs) =
         (\<not> numericTruncated data (drop 1 (fst (readString data ?o))) (snd (readString data ?o)))"
      by simp_all
    from True have d: "decode data =
        (case ?r of Inl e \<Rightarrow> Inl e
         | Inr vs \<Rightarrow> Inr \<lparr>address = textDecode (addressBytes data), args = vs\<rparr>)"
      by (simp add: decode_result)
    show ?thesis
      unfolding t d using True r by (cases ?r) auto
  next
    case False
    then show ?thesis
      unfolding t by (auto simp: decode_result)
  qed
qed

theorem decode_truncated_numeric_witness:
  "truncatedNumeric [47, 97, 0, 0, 44, 105, 0, 0, 0, 0, 1] \<and>
   decode [47, 97, 0, 0, 44, 105, 0, 0, 0, 0, 1] = Inl RangeError"
proof -
  have "truncatedNumeric [47, 97, 0, 0, 44, 105, 0, 0, 0, 0, 1]"
    by code_simp
  with decode_truncated_numeric [of "[47, 97, 0, 0, 44, 105, 0, 0, 0, 0, 1]"]
  show ?thesis by simp
qed

text \<open>
  C5, as stated, fails: in the ten bytes of \<open>/a\<close>, \<open>,s\<close> and \<open>ab\<close> the string argument
  starts at offset 8 and has neither its terminator nor its padding, which would end
  past the buffer; \<open>decode\<close> returns the message with the argument \<open>ab\<close> instead of a
  failure.
\<close>

theorem decode_truncated_counterexample:
  "length [47, 97, 0, 0, 44, 115, 0, 0, 97, 98 :: byte] < 8 + length (oscString ''ab'') \<and>
   decode [47, 97, 0, 0, 44, 115, 0, 0, 97, 98] = Inr \<lparr>address = ''/a'', args = [Str ''ab'']\<rparr>"
  by code_simp

text \<open>
  C8. Alignment: for every address and every argument list, \<open>encode\<close> returns a buffer
  whose length is a multiple of four; the buffer is the address, the type tags and the
  payload of each argument in order, where the address, the type tags and each string
  argument are written as their bytes followed by one to four zero bytes, up to a multiple
  of four.
\<close>

theorem encode_aligned:
  "(\<exists>buffer. encode addr vs = Inr buffer \<and> length buffer mod 4 = 0 \<and>
      buffer = oscString addr @ oscString (typeTagsOf vs) @ concat (map argBytes vs)) \<and>
   argBytes (Str s) = oscString s \<and>
   (\<exists>k. 1 \<le> k \<and> k \<le> 4 \<and> oscString s = textEncode s @ replicate k 0 \<and>
        length (oscString s) mod 4 = 0)"
proof -
  have "encode addr vs = Inr (wireLayout addr vs) \<and> length (wireLayout addr vs) mod 4 = 0 \<and>
        wireLayout addr vs = oscString addr @ oscString (typeTagsOf vs) @ concat (map argBytes vs)"
    by (simp add: encode_wireLayout wireLayout_aligned) (simp add: wireLayout_def)
  then have first: "\<exists>buffer. encode addr vs = Inr buffer \<and> length buffer mod 4 = 0 \<and>
      buffer = oscString addr @ oscString (typeTagsOf vs) @ concat (map argBytes vs)"
    by (rule exI)
  let ?k = "alignedStringSize s - length (textEncode s)"
  have k: "1 \<le> ?k" "?k \<le> 4"
    using alignedStringSize_bounds(1,2) [of s] by simp_all
  have "length (oscString s) mod 4 = 0"
    by (simp add: alignedStringSize_bounds(3))
  with k have "1 \<le> ?k \<and> ?k \<le> 4 \<and> oscString s = textEncode s @ replicate ?k 0 \<and>
        length (oscString s) mod 4 = 0"
    by (simp add: oscString_def)
  then have "\<exists>k. 1 \<le> k \<and> k \<le> 4 \<and> oscString s = textEncode s @ replicate k 0 \<and>
        length (oscString s) mod 4 = 0"
    by (rule exI)
  with first show ?thesis by simp
qed

text \<open>
  C9. Zero arguments: when the buffer ends at or before the end of the padded address, or
  the byte right after the padded address is not a comma, \<open>decode\<close> returns the address
  (the bytes before the first zero byte) with an empty argument list, and no error.
\<close>

theorem decode_without_type_tags:
  assumes "length data \<le> paddedAddressSize data \<or> data ! paddedAddressSize data \<noteq> 44"
  shows "decode data = Inr \<lparr>address = textDecode (addressBytes data), args = []\<rparr>"
  using assms by (auto simp: decode_result)

theorem decode_without_type_tags_witness:
  "(length [47, 97, 98, 99 :: byte] \<le> paddedAddressSize [47, 97, 98, 99] \<or>
      [47, 97, 98, 99 :: byte] ! paddedAddressSize [47, 97, 98, 99] \<noteq> 44) \<and>
   decode [47, 97, 98, 99] = Inr \<lparr>address = ''/abc'', args = []\<rparr> \<and>
   (length [47, 97, 0, 0, 105, 0, 0, 0 :: byte] \<le> paddedAddressSize [47, 97, 0, 0, 105, 0, 0, 0] \<or>
      [47, 97, 0, 0, 105, 0, 0, 0 :: byte] ! paddedAddressSize [47, 97, 0, 0, 105, 0, 0, 0] \<noteq> 44) \<and>
   decode [47, 97, 0, 0, 105, 0, 0, 0] = Inr \<lparr>address = ''/a'', args = []\<rparr>"
proof -
  have "length [47, 97, 98, 99 :: byte] \<le> paddedAddressSize [47, 97, 98, 99]"
    by code_simp
  then have h: "length [47, 97, 98, 99 :: byte] \<le> paddedAddressSize [47, 97, 98, 99] \<or>
                  [47, 97, 98, 99 :: byte] ! paddedAddressSize [47, 97, 98, 99] \<noteq> 44"
    by simp
  have "[47, 97, 0, 0, 105, 0, 0, 0 :: byte] ! paddedAddressSize [47, 97, 0, 0, 105, 0, 0, 0] \<noteq> 44"
    by code_simp
  then have h': "length [47, 97, 0, 0, 105, 0, 0, 0 :: byte] \<le>
                   paddedAddressSize [47, 97, 0, 0, 105, 0, 0, 0] \<or>
                 [47, 97, 0, 0, 105, 0, 0, 0 :: byte] !
                   paddedAddressSize [47, 97, 0, 0, 105, 0, 0, 0] \<noteq> 44"
    by simp
  have t: "textDecode (addressBytes [47, 97, 98, 99]) = ''/abc''"
    "textDecode (addressBytes [47, 97, 0, 0, 105, 0, 0, 0]) = ''/a''"
    by code_simp+
  from decode_without_type_tags [OF h] decode_without_type_tags [OF h'] h h' t
  show ?thesis by simp
qed

section \<open>Claims about the device session\<close>

text \<open>
  C2, as the code has it. Handshake: \<open>start\<close> tracks five acknowledgments,
  \<open>/sys/host\<close>, \<open>/sys/port\<close>, \<open>/sys/prefix\<close>, \<open>/sys/rotation\<close> and \<open>/sys/size\<close>. For a
  freshly configured and started session, every sequence of messages that delivers the
  five, in any order, whatever their arguments, with any duplicates and any other messages
  but \<open>/sys/connect\<close> and \<open>/sys/disconnect\<close> among or after them, and in which no
  prefix is delivered by more than ten \<open>/sys/prefix\<close> messages, is handled without an
  exception and results in exactly one \<open>initialized\<close> event and in the session being
  connected. The bound is the listener limit of the emitter: the eleventh \<open>/sys/prefix\<close>
  with one prefix raises \<open>TypeError\<close> in the callback of a \<open>Grid\<close> or of an \<open>Arc\<close>.
\<close>

theorem handshake_five_acks:
  assumes "configured d"
    and "listeners (oscReceiver d) = [] \<or>
         listeners (oscReceiver d) = [(''message'', OnDebugMessage)]"
    and "set trackedAcks \<subseteq> set (map fst ms)"
    and "''/sys/connect'' \<notin> set (map fst ms)" and "''/sys/disconnect'' \<notin> set (map fst ms)"
    and "\<forall>p. length (filter (\<lambda>m. fst m = ''/sys/prefix'' \<and> prefixOf ns m = p) ms) \<le> listenerLimit"
  shows "startWithLimit d = Inr (start d) \<and>
         runWithLimit ns (start d) ms = Inr (run ns (start d) ms) \<and>
         initializedCount (run ns (start d) ms) = 1 \<and> connected (run ns (start d) ms)"
proof -
  have "core (run ns (start d) ms) =
          foldl (\<lambda>c a. addressCore a c) (trackedAcks, False, 0) (map fst ms)"
    using run_core [OF start_core(1) [OF assms(1)]] start_core(2) [OF assms(1)] by simp
  also have "\<dots> = ([], True, 1)"
    using acks_core [OF assms(4,5), of 0] assms(3) by simp
  finally have c: "initializedCount (run ns (start d) ms) = 1 \<and> connected (run ns (start d) ms)"
    by (simp add: core_def)
  have "listenerCount (start d) b + registrations ns (kind (start d)) ms b \<le> listenerLimit" for b
    using start_within_limit [OF assms(2)] assms(6) by blast
  from runWithLimit_ok [OF start_core(1) [OF assms(1)] this] startWithLimit_ok [OF assms(2)] c
  show ?thesis by simp
qed

theorem handshake_five_acks_witness:
  "configured (newDevice GridClass True (Str ''127.0.0.1'') (Num (Whole 9000))) \<and>
   listeners (oscReceiver (newDevice GridClass True (Str ''127.0.0.1'') (Num (Whole 9000)))) =
     [(''message'', OnDebugMessage)] \<and>
   set trackedAcks \<subseteq> set (map fst
     [(''/sys/prefix'', [Str ''/monome'']), (''/sys/size'', [Num (Whole 8), Num (Whole 8)]),
      (''/sys/rotation'', [Num (Whole 0)]), (''/sys/prefix'', [Str ''/monome'']),
      (''/sys/host'', [Str ''127.0.0.1'']), (''/sys/port'', [Num (Whole 9000)]),
      (''/sys/prefix'', [Str ''/a'']), (''/sys/size'', [Num (Whole 8), Num (Whole 8)])]) \<and>
   startWithLimit (newDevice GridClass True (Str ''127.0.0.1'') (Num (Whole 9000))) =
     Inr (start (newDevice GridClass True (Str ''127.0.0.1'') (Num (Whole 9000)))) \<and>
   runWithLimit (\<lambda>n. []) (start (newDevice GridClass True (Str ''127.0.0.1'') (Num (Whole 9000))))
     [(''/sys/prefix'', [Str ''/monome'']), (''/sys/size'', [Num (Whole 8), Num (Whole 8)]),
      (''/sys/rotation'', [Num (Whole 0)]), (''/sys/prefix'', [Str ''/monome'']),
      (''/sys/host'', [Str ''127.0.0.1'']), (''/sys/port'', [Num (Whole 9000)]),
      (''/sys/prefix'', [Str ''/a'']), (''/sys/size'', [Num (Whole 8), Num (Whole 8)])] =
     Inr (run (\<lambda>n. []) (start (newDevice GridClass True (Str ''127.0.0.1'') (Num (Whole 9000))))
       [(''/sys/prefix'', [Str ''/monome'']), (''/sys/size'', [Num (Whole 8), Num (Whole 8)]),
        (''/sys/rotation'', [Num (Whole 0)]), (''/sys/prefix'', [Str ''/monome'']),
        (''/sys/host'', [Str ''127.0.0.1'']), (''/sys/port'', [Num (Whole 9000)]),
        (''/sys/prefix'', [Str ''/a'']), (''/sys/size'', [Num (Whole 8), Num (Whole 8)])]) \<and>
   initializedCount
     (run (\<lambda>n. []) (start (newDevice GridClass True (Str ''127.0.0.1'') (Num (Whole 9000))))
       [(''/sys/prefix'', [Str ''/monome'']), (''/sys/size'', [Num (Whole 8), Num (Whole 8)]),
        (''/sys/rotation'', [Num (Whole 0)]), (''/sys/prefix'', [Str ''/monome'']),
        (''/sys/host'', [Str ''127.0.0.1'']), (''/sys/port'', [Num (Whole 9000)]),
        (''/sys/prefix'', [Str ''/a'']), (''/sys/size'', [Num (Whole 8), Num (Whole 8)])]) = 1 \<and>
   connected
     (run (\<lambda>n. []) (start (newDevice GridClass True (Str ''127.0.0.1'') (Num (Whole 9000))))
       [(''/sys/prefix'', [Str ''/monome'']), (''/sys/size'', [Num (Whole 8), Num (Whole 8)]),
        (''/sys/rotation'', [Num (Whole 0)]), (''/sys/prefix'', [Str ''/monome'']),
        (''/sys/host'', [Str ''127.0.0.1'']), (''/sys/port'', [Num (Whole 9000)]),
        (''/sys/prefix'', [Str ''/a'']), (''/sys/size'', [Num (Whole 8), Num (Whole 8)])])"
proof -
  let ?d = "newDevice GridClass True (Str ''127.0.0.1'') (Num (Whole 9000))"
  let ?ms = "[(''/sys/prefix'', [Str ''/monome'']), (''/sys/size'', [Num (Whole 8), Num (Whole 8)]),
      (''/sys/rotation'', [Num (Whole 0)]), (''/sys/prefix'', [Str ''/monome'']),
      (''/sys/host'', [Str ''127.0.0.1'']), (''/sys/port'', [Num (Whole 9000)]),
      (''/sys/prefix'', [Str ''/a'']), (''/sys/size'', [Num (Whole 8), Num (Whole 8)])]"
  have h1: "configured ?d"
    by (simp add: configured_def newDevice_def newOscReceiver_def on_def)
  have l: "listeners (oscReceiver ?d) = [(''message'', OnDebugMessage)]"
    by (simp add: newDevice_def newOscReceiver_def on_def)
  then have h2: "listeners (oscReceiver ?d) = [] \<or>
                 listeners (oscReceiver ?d) = [(''message'', OnDebugMessage)]" ..
  have h3: "set trackedAcks \<subseteq> set (map fst ?ms)" by (simp add: trackedAcks_def)
  have h4: "''/sys/connect'' \<notin> set (map fst ?ms)" by simp
  have h5: "''/sys/disconnect'' \<notin> set (map fst ?ms)" by simp
  have n: "length ?ms \<le> listenerLimit" by (simp add: listenerLimit_def)
  have "length (filter (\<lambda>m. fst m = ''/sys/prefix'' \<and> prefixOf (\<lambda>n. []) m = p) ?ms) \<le> listenerLimit"
    for p by (rule le_trans [OF length_filter_le n])
  then have h6: "\<forall>p. length (filter (\<lambda>m. fst m = ''/sys/prefix'' \<and> prefixOf (\<lambda>n. []) m = p) ?ms)
                    \<le> listenerLimit" ..
  have r: "startWithLimit ?d = Inr (start ?d) \<and>
           runWithLimit (\<lambda>n. []) (start ?d) ?ms = Inr (run (\<lambda>n. []) (start ?d) ?ms) \<and>
           initializedCount (run (\<lambda>n. []) (start ?d) ?ms) = 1 \<and>
           connected (run (\<lambda>n. []) (start ?d) ?ms)"
    by (rule handshake_five_acks [OF h1 h2 h3 h4 h5 h6])
  show ?thesis
    by (rule conjI [OF h1 conjI [OF l conjI [OF h3 r]]])
qed

text \<open>
  C2, as stated, fails: after the four acknowledgments \<open>/sys/size\<close>, \<open>/sys/rotation\<close>,
  \<open>/sys/host\<close>, \<open>/sys/port\<close> of a freshly started session, \<open>/sys/prefix\<close> is still
  pending: no \<open>initialized\<close> event has been emitted and the session is not connected.
\<close>

theorem handshake_four_acks_counterexample:
  "initializedCount
     (run (\<lambda>n. []) (start (newDevice GridClass False (Str ''127.0.0.1'') (Num (Whole 9000))))
        [(''/sys/size'', [Num (Whole 8), Num (Whole 8)]), (''/sys/rotation'', [Num (Whole 0)]),
         (''/sys/host'', [Str ''127.0.0.1'']), (''/sys/port'', [Num (Whole 9000)])]) = 0 \<and>
   \<not> connected
     (run (\<lambda>n. []) (start (newDevice GridClass False (Str ''127.0.0.1'') (Num (Whole 9000))))
        [(''/sys/size'', [Num (Whole 8), Num (Whole 8)]), (''/sys/rotation'', [Num (Whole 0)]),
         (''/sys/host'', [Str ''127.0.0.1'']), (''/sys/port'', [Num (Whole 9000)])]) \<and>
   initMsgs
     (run (\<lambda>n. []) (start (newDevice GridClass False (Str ''127.0.0.1'') (Num (Whole 9000))))
        [(''/sys/size'', [Num (Whole 8), Num (Whole 8)]), (''/sys/rotation'', [Num (Whole 0)]),
         (''/sys/host'', [Str ''127.0.0.1'']), (''/sys/port'', [Num (Whole 9000)])]) =
     [''/sys/prefix'']"
  by code_simp



text \<open>
  C3, on the code. After a Grid session has received \<open>/sys/prefix\<close> with \<open>/bar\<close> and
  then with \<open>/foo\<close>, the prefix is \<open>/foo\<close> and a message at \<open>/foo/grid/key\<close> reaches
  the key callback; but the subscription at \<open>/bar/grid/key\<close> is still there, and a message
  at \<open>/bar/grid/key\<close> raises a \<open>key\<close> event as well. \<open>removeListener\<close> removes
  nothing: whatever messages a device receives, the subscriptions it had are all kept.
\<close>

theorem prefix_change_keeps_old_listeners:
  "prefix (run ns (start (newDevice GridClass False h p))
             [(''/sys/prefix'', [Str ''/bar'']), (''/sys/prefix'', [Str ''/foo''])]) = Str ''/foo'' \<and>
   listenersFor
     (oscReceiver (run ns (start (newDevice GridClass False h p))
        [(''/sys/prefix'', [Str ''/bar'']), (''/sys/prefix'', [Str ''/foo''])]))
     ''/foo/grid/key'' = [OnGridKey] \<and>
   listenersFor
     (oscReceiver (run ns (start (newDevice GridClass False h p))
        [(''/sys/prefix'', [Str ''/bar'']), (''/sys/prefix'', [Str ''/foo''])]))
     ''/bar/grid/key'' = [OnGridKey] \<and>
   events (run ns (start (newDevice GridClass False h p))
             [(''/sys/prefix'', [Str ''/bar'']), (''/sys/prefix'', [Str ''/foo'']),
              (''/bar/grid/key'', [x, y, s])]) = [(''key'', [x, y, s])] \<and>
   (\<exists>ext. listeners (oscReceiver (run ns d ms)) = listeners (oscReceiver d) @ ext)"
proof -
  have "prefix (run ns (start (newDevice GridClass False h p))
             [(''/sys/prefix'', [Str ''/bar'']), (''/sys/prefix'', [Str ''/foo''])]) = Str ''/foo'' \<and>
   listenersFor
     (oscReceiver (run ns (start (newDevice GridClass False h p))
        [(''/sys/prefix'', [Str ''/bar'']), (''/sys/prefix'', [Str ''/foo''])]))
     ''/foo/grid/key'' = [OnGridKey] \<and>
   listenersFor
     (oscReceiver (run ns (start (newDevice GridClass False h p))
        [(''/sys/prefix'', [Str ''/bar'']), (''/sys/prefix'', [Str ''/foo''])]))
     ''/bar/grid/key'' = [OnGridKey] \<and>
   events (run ns (start (newDevice GridClass False h p))
             [(''/sys/prefix'', [Str ''/bar'']), (''/sys/prefix'', [Str ''/foo'']),
              (''/bar/grid/key'', [x, y, s])]) = [(''key'', [x, y, s])]"
    by (simp add: run_def dispatch_def emitTo_def listenersFor_def start_def newDevice_def
          newOscReceiver_def listen_def on_def send_def receiveInitMsg_def addListeners_def
          removeListeners_def removeListener_def emitEvent_def param_def Let_def)
  with listeners_run_grow [of ns d ms] show ?thesis by simp
qed

text \<open>
  C6, on the code. \<open>close\<close> clears \<open>isListening\<close> and drops the socket, and a second
  \<open>close\<close> changes nothing; but \<open>removeAllListeners\<close> removes nothing, so every
  subscription is still registered after \<open>close\<close>, and after \<open>Device.stop\<close>, which
  calls it: a receiver that subscribed a callback at \<open>/sys/port\<close> still has it after
  \<open>close\<close>.
\<close>

theorem close_keeps_subscriptions:
  "close (close r) = close r \<and> \<not> isListening (close r) \<and> \<not> socket (close r) \<and>
   listeners (close r) = listeners r \<and>
   listeners (oscReceiver (stop d)) = listeners (oscReceiver d) \<and>
   listenersFor (close (on (listen newOscReceiver) ''/sys/port'' OnSysPort)) ''/sys/port'' =
     [OnSysPort]"
  by (simp add: close_def removeAllListeners_def Let_def listenersFor_def on_def listen_def
        newOscReceiver_def stop_def)

section \<open>Claims about the discovery client\<close>

text \<open>
  C4, as the code has it. Device detached: when a started client receives
  \<open>/serialosc/remove\<close> with \<open>(id, model, devicePort)\<close>, the stored devices stay as they
  are; if a descriptor with that \<open>(id, devicePort)\<close> is stored, the events
  \<open><id>:remove\<close> and \<open>device:remove\<close> are emitted with it, otherwise no event is
  emitted; and in both cases one \<open>/serialosc/notify\<close> is sent to the daemon afterwards.
\<close>

theorem device_detached:
  assumes "serialoscSender st"
  shows "devices (onSerialoscRemove st ident model p) = devices st \<and>
         sentToDaemon (onSerialoscRemove st ident model p) = sentToDaemon st @ [notifyMessage st] \<and>
         ((ident, p) \<in> set (map deviceKey (devices st)) \<longrightarrow>
            (\<exists>d. d \<in> set (devices st) \<and> deviceKey d = (ident, p) \<and>
                 emitted (onSerialoscRemove st ident model p) = emitted st @ removeEvents d)) \<and>
         ((ident, p) \<notin> set (map deviceKey (devices st)) \<longrightarrow>
            emitted (onSerialoscRemove st ident model p) = emitted st)"
proof (cases "find (\<lambda>d. info_id d = ident \<and> info_devicePort d = p) (devices st)")
  case None
  with assms find_key_None [of ident p "devices st"] show ?thesis
    by (simp add: onSerialoscRemove_def sendToDaemon_def notifyMessage_def Let_def)
next
  case (Some d)
  from find_key_Some [OF Some] have d: "d \<in> set (devices st)" "deviceKey d = (ident, p)"
    by simp_all
  then have known: "(ident, p) \<in> set (map deviceKey (devices st))" by force
  have "emitted (onSerialoscRemove st ident model p) = emitted st @ removeEvents d"
    using Some assms
    by (simp add: onSerialoscRemove_def sendToDaemon_def emitDevice_def removeEvents_def Let_def)
  moreover have "devices (onSerialoscRemove st ident model p) = devices st"
    "sentToDaemon (onSerialoscRemove st ident model p) = sentToDaemon st @ [notifyMessage st]"
    using Some assms
    by (simp_all add: onSerialoscRemove_def sendToDaemon_def emitDevice_def notifyMessage_def
          Let_def)
  ultimately show ?thesis using d known by blast
qed

theorem device_detached_witness:
  "serialoscSender (announce (startedClient ''localhost'' 13000 ''localhost'')
                      (''m1'', ''monome 64'', 14000)) \<and>
   (''m1'', 14000) \<in> set (map deviceKey
      (devices (announce (startedClient ''localhost'' 13000 ''localhost'')
                  (''m1'', ''monome 64'', 14000)))) \<and>
   (''m2'', 14000) \<notin> set (map deviceKey
      (devices (announce (startedClient ''localhost'' 13000 ''localhost'')
                  (''m1'', ''monome 64'', 14000)))) \<and>
   (\<exists>d. deviceKey d = (''m1'', 14000) \<and>
        emitted (onSerialoscRemove
                   (announce (startedClient ''localhost'' 13000 ''localhost'')
                      (''m1'', ''monome 64'', 14000)) ''m1'' ''monome 64'' 14000) =
          emitted (announce (startedClient ''localhost'' 13000 ''localhost'')
                     (''m1'', ''monome 64'', 14000)) @ removeEvents d) \<and>
   emitted (onSerialoscRemove
              (announce (startedClient ''localhost'' 13000 ''localhost'')
                 (''m1'', ''monome 64'', 14000)) ''m2'' ''monome 64'' 14000) =
     emitted (announce (startedClient ''localhost'' 13000 ''localhost'')
                (''m1'', ''monome 64'', 14000)) \<and>
   sentToDaemon (onSerialoscRemove
                   (announce (startedClient ''localhost'' 13000 ''localhost'')
                      (''m1'', ''monome 64'', 14000)) ''m1'' ''monome 64'' 14000) =
     sentToDaemon (announce (startedClient ''localhost'' 13000 ''localhost'')
                     (''m1'', ''monome 64'', 14000)) @
     [notifyMessage (announce (startedClient ''localhost'' 13000 ''localhost'')
                       (''m1'', ''monome 64'', 14000))]"
proof -
  let ?st = "announce (startedClient ''localhost'' 13000 ''localhost'')
               (''m1'', ''monome 64'', 14000)"
  have h1: "serialoscSender ?st" by code_simp
  have h2: "(''m1'', 14000) \<in> set (map deviceKey (devices ?st))" by code_simp
  have h3: "(''m2'', 14000) \<notin> set (map deviceKey (devices ?st))" by code_simp
  from device_detached [OF h1, of "''m1''" "''monome 64''" 14000]
    device_detached [OF h1, of "''m2''" "''monome 64''" 14000] h1 h2 h3
  show ?thesis by blast
qed

text \<open>
  C4, as stated, fails: a client that stored the descriptor of \<open>(m1, 14000)\<close> and then
  receives \<open>/serialosc/remove\<close> for \<open>(m1, 14000)\<close> still stores it.
\<close>

theorem device_detached_counterexample:
  "map deviceKey
     (devices (onSerialoscRemove
                 (announce (startedClient ''localhost'' 13000 ''localhost'')
                    (''m1'', ''monome 64'', 14000)) ''m1'' ''monome 64'' 14000)) =
     [(''m1'', 14000)]"
  by code_simp

text \<open>
  C7, as the code has it. Deduplication: after any sequence of announcements received by a
  client that had no device and had emitted nothing, the keys \<open>(id, devicePort)\<close> of the
  stored descriptors are pairwise distinct; and for every announcement of the sequence
  exactly one descriptor with its key is stored, and the events that carry a descriptor
  with that key are those of one addition of that descriptor: the emit of \<open><id>:add\<close>
  and the emit of \<open>device:add\<close>, once each. So a key has exactly one event named
  \<open>device:add\<close>, unless the id is \<open>device\<close>: then \<open><id>:add\<close> is that name too, and
  the key has two.
\<close>

theorem announcement_dedup:
  assumes "devices st = []" and "emitted st = []" and "a \<in> set anns"
  shows "distinct (map deviceKey (devices (foldl announce st anns))) \<and>
         (\<exists>d. filter (\<lambda>x. deviceKey x = announceKey a) (devices (foldl announce st anns)) = [d] \<and>
              filter (\<lambda>e. deviceKey (snd e) = announceKey a) (emitted (foldl announce st anns)) =
                addEvents d) \<and>
         length (filter (\<lambda>e. fst e = ''device:add'' \<and> deviceKey (snd e) = announceKey a)
                   (emitted (foldl announce st anns))) =
           (if fst a = ''device'' then 2 else 1)"
proof -
  let ?st = "foldl announce st anns"
  from assms(1,2) have "dedupInv st" by (simp add: dedupInv_def)
  from announcements_inv [OF this, of anns] assms(1)
  have inv: "dedupInv ?st" and keys: "set (map deviceKey (devices ?st)) = set (map announceKey anns)"
    by simp_all
  from inv have dist: "distinct (map deviceKey (devices ?st))"
    and log: "emitted ?st = concat (map addEvents (devices ?st))"
    by (simp_all add: dedupInv_def)
  from assms(3) keys have "announceKey a \<in> set (map deviceKey (devices ?st))" by auto
  from filter_unique_key [OF dist this] obtain d where
    d: "filter (\<lambda>x. deviceKey x = announceKey a) (devices ?st) = [d]" by blast
  have e: "filter (\<lambda>e. deviceKey (snd e) = announceKey a) (emitted ?st) = addEvents d"
    by (simp add: log filter_addEvents d)
  have "d \<in> set (filter (\<lambda>x. deviceKey x = announceKey a) (devices ?st))" by (simp add: d)
  then have k: "info_id d = fst a" by (simp add: deviceKey_def announceKey_def)
  have "filter (\<lambda>e. fst e = ''device:add'' \<and> deviceKey (snd e) = announceKey a) (emitted ?st) =
          filter (\<lambda>e. fst e = ''device:add'')
            (filter (\<lambda>e. deviceKey (snd e) = announceKey a) (emitted ?st))"
    by (simp add: conj_commute)
  also have "\<dots> = (if fst a = ''device'' then addEvents d else [(''device:add'', d)])"
    unfolding e filter_name_addEvents k ..
  finally have "length (filter (\<lambda>e. fst e = ''device:add'' \<and> deviceKey (snd e) = announceKey a)
                   (emitted ?st)) = (if fst a = ''device'' then 2 else 1)"
    by (simp add: addEvents_def)
  with dist d e show ?thesis by blast
qed

theorem announcement_dedup_witness:
  "devices (startedClient ''localhost'' 13000 ''localhost'') = [] \<and>
   emitted (startedClient ''localhost'' 13000 ''localhost'') = [] \<and>
   (''m1'', ''monome 64'', 14000 :: int) \<in>
     set [(''m1'', ''monome 64'', 14000), (''a1'', ''monome arc 2'', 14001),
          (''m1'', ''monome 64'', 14000)] \<and>
   distinct (map deviceKey (devices (foldl announce
     (startedClient ''localhost'' 13000 ''localhost'')
     [(''m1'', ''monome 64'', 14000), (''a1'', ''monome arc 2'', 14001),
      (''m1'', ''monome 64'', 14000)]))) \<and>
   (\<exists>d. filter (\<lambda>x. deviceKey x = announceKey (''m1'', ''monome 64'', 14000))
          (devices (foldl announce (startedClient ''localhost'' 13000 ''localhost'')
             [(''m1'', ''monome 64'', 14000), (''a1'', ''monome arc 2'', 14001),
              (''m1'', ''monome 64'', 14000)])) = [d] \<and>
        filter (\<lambda>e. deviceKey (snd e) = announceKey (''m1'', ''monome 64'', 14000))
          (emitted (foldl announce (startedClient ''localhost'' 13000 ''localhost'')
             [(''m1'', ''monome 64'', 14000), (''a1'', ''monome arc 2'', 14001),
              (''m1'', ''monome 64'', 14000)])) = addEvents d) \<and>
   length (filter (\<lambda>e. fst e = ''device:add'' \<and>
                       deviceKey (snd e) = announceKey (''m1'', ''monome 64'', 14000))
             (emitted (foldl announce (startedClient ''localhost'' 13000 ''localhost'')
                [(''m1'', ''monome 64'', 14000), (''a1'', ''monome arc 2'', 14001),
                 (''m1'', ''monome 64'', 14000)]))) = 1"
proof -
  let ?st = "startedClient ''localhost'' 13000 ''localhost''"
  let ?anns = "[(''m1'', ''monome 64'', 14000 :: int), (''a1'', ''monome arc 2'', 14001),
                (''m1'', ''monome 64'', 14000)]"
  have h1: "devices ?st = []" by code_simp
  have h2: "emitted ?st = []" by code_simp
  have h3: "(''m1'', ''monome 64'', 14000) \<in> set ?anns" by simp
  have n: "fst (''m1'', ''monome 64'', 14000 :: int) \<noteq> ''device''" by simp
  from announcement_dedup [OF h1 h2 h3] n
  have "distinct (map deviceKey (devices (foldl announce ?st ?anns))) \<and>
   (\<exists>d. filter (\<lambda>x. deviceKey x = announceKey (''m1'', ''monome 64'', 14000))
          (devices (foldl announce ?st ?anns)) = [d] \<and>
        filter (\<lambda>e. deviceKey (snd e) = announceKey (''m1'', ''monome 64'', 14000))
          (emitted (foldl announce ?st ?anns)) = addEvents d) \<and>
   length (filter (\<lambda>e. fst e = ''device:add'' \<and>
                       deviceKey (snd e) = announceKey (''m1'', ''monome 64'', 14000))
             (emitted (foldl announce ?st ?anns))) = 1"
    by presburger
  with h1 h2 h3 show ?thesis by blast
qed

text \<open>
  C7, as stated, fails: a client that receives the announcement of \<open>(device, 14000)\<close>
  twice stores one descriptor, and has emitted two events named \<open>device:add\<close> for it.
\<close>

theorem announcement_dedup_counterexample:
  "map deviceKey
     (devices (foldl announce (startedClient ''localhost'' 13000 ''localhost'')
        [(''device'', ''monome 64'', 14000), (''device'', ''monome 64'', 14000)])) =
     [(''device'', 14000)] \<and>
   map fst
     (emitted (foldl announce (startedClient ''localhost'' 13000 ''localhost'')
        [(''device'', ''monome 64'', 14000), (''device'', ''monome 64'', 14000)])) =
     [''device:add'', ''device:add'']"
  by code_simp

end
